theory Spec2Isabelle
  imports Main "HOL-Library.AList" "HOL-Library.Multiset"
begin

section \<open>Package stream: a buffering and replaying HTTP middleware\<close>

text \<open>
  The theory embeds \<^verbatim>\<open>stream/stream.go\<close>: the \<^verbatim>\<open>Streamer\<close> struct, its constructor
  \<^verbatim>\<open>New\<close> with the option setters, \<^verbatim>\<open>Wrap\<close>, and \<^verbatim>\<open>ServeHTTP\<close> with its helpers
  \<^verbatim>\<open>checkLimit\<close>, \<^verbatim>\<open>copyRequest\<close>, \<^verbatim>\<open>copyHeaders\<close>, \<^verbatim>\<open>bufferWriter\<close> and
  \<^verbatim>\<open>SizeErrHandler\<close>.

  \<^item> Sizes are Go \<^verbatim>\<open>int64\<close> and the attempt counter is a Go \<^verbatim>\<open>int\<close>. The code only
    compares and stores them (the one addition, \<^verbatim>\<open>attempt += 1\<close>, never passes 11), so
    they are modelled as \<open>int\<close>. Byte sequences are \<open>string\<close> (a list of 8-bit characters).
  \<^item> \<^verbatim>\<open>ServeHTTP\<close> is a function on an explicit state: the real response writer, the one
    buffer that holds the request body and is shared by all attempts, the state of the
    wrapped handler, the deferred calls, and the trace of the calls made on the
    collaborators. The \<^verbatim>\<open>for\<close> loop is a recursive function whose termination is proved.
  \<^item> Every \<^verbatim>\<open>return\<close> of the source is a branch of the model, and so is the panic of a
    call on a nil logger or a nil error handler. The deferred calls run when the
    function returns.
  \<^item> The buffer library, the host HTTP library, package \<^verbatim>\<open>utils\<close> and the predicate
    compiler are not in the file; what the model takes from them is marked
    where it is defined.
\<close>

subsection \<open>Constants\<close>

definition DefaultMemBodyBytes :: int where
  "DefaultMemBodyBytes = 1048576"

definition DefaultMaxBodyBytes :: int where
  "DefaultMaxBodyBytes = - 1"

definition DefaultMaxRetryAttempts :: int where
  "DefaultMaxRetryAttempts = 10"

definition StatusRequestEntityTooLarge :: int where
  "StatusRequestEntityTooLarge = 413"

text \<open>\<^verbatim>\<open>http.StatusText\<close> of the host library, at the one code the package asks for.\<close>

definition StatusText :: "int \<Rightarrow> string" where
  "StatusText c = (if c = 413 then ''Request Entity Too Large'' else [])"

subsection \<open>Data\<close>

type_synonym bytes = string

text \<open>
  \<^verbatim>\<open>http.Header\<close> is a \<^verbatim>\<open>map[string][]string\<close>: an association list with one entry per
  key. A key is any string: the methods \<^verbatim>\<open>Add\<close>, \<^verbatim>\<open>Set\<close> and \<^verbatim>\<open>Del\<close> of the host library
  bring the key they are given into canonical form, an assignment to the map does not.
\<close>

type_synonym header = "(string \<times> string list) list"

datatype error =
    MaxSizeReachedError int
  | Errorf string int
  | ParseError string
  | IOError string

text \<open>
  \<^verbatim>\<open>http.Request\<close>, with the fields the package reads or writes. The type of \<open>Body\<close> is a
  parameter: the inbound request carries the bytes still to be read from the connection,
  the outbound one a reference to the buffer that \<^verbatim>\<open>ServeHTTP\<close> shares between attempts.
\<close>

record 'b request =
  Method :: string
  URL :: string
  Header :: header
  ContentLength :: int
  TransferEncoding :: "string list"
  Body :: 'b

datatype body_ref = Multibuf

text \<open>The real \<^verbatim>\<open>http.ResponseWriter\<close>: its header map, the codes passed to
  \<^verbatim>\<open>WriteHeader\<close> in call order, and the bytes passed to \<^verbatim>\<open>Write\<close>, concatenated.\<close>

record response_writer =
  rw_header :: header
  rw_codes :: "int list"
  rw_body :: bytes

text \<open>
  Modelled from the spec: the spillable buffer of package \<^verbatim>\<open>multibuf\<close> is not among the
  sources. The spec gives its contract (write, seek to start, size, close; bounded by a
  maximum size). A \<^verbatim>\<open>MultiReader\<close> is its content and the read offset; a
  \<^verbatim>\<open>WriterOnce\<close> is its options and the bytes written so far.
\<close>

record multiReader =
  mr_data :: bytes
  mr_pos :: nat

record writerOnce =
  wo_maxBytes :: int
  wo_memBytes :: int
  wo_data :: bytes

record bufferWriter =
  bw_header :: header
  bw_code :: int
  bw_buffer :: writerOnce

datatype logger = NullLogger | CustomLogger string

datatype level = LInfo | LError

text \<open>
  Modelled from the spec: type \<^verbatim>\<open>context\<close> and \<^verbatim>\<open>hpredicate\<close> are declared in a file of
  the package that is not among the sources. The fields are those of the composite literal
  in \<^verbatim>\<open>ServeHTTP\<close>; the spec calls it the retry context (request, 1-based attempt number,
  observed status code, logger).
\<close>

record retry_context =
  ctx_r :: "bytes request"
  ctx_attempt :: int
  ctx_responseCode :: int
  ctx_log :: "logger option"

type_synonym hpredicate = "retry_context \<Rightarrow> bool"

text \<open>\<^verbatim>\<open>utils.ErrorHandler\<close>: the package's own \<^verbatim>\<open>SizeErrHandler\<close>, or any other
  implementation, which gets the real writer, the request and the error.\<close>

datatype errorHandler =
    SizeErrHandler
  | CustomErrHandler "response_writer \<Rightarrow> bytes request \<Rightarrow> error option \<Rightarrow> response_writer"

text \<open>
  What a wrapped \<^verbatim>\<open>http.Handler\<close> can do with the \<^verbatim>\<open>bufferWriter\<close> it is given:
  change the header map behind \<^verbatim>\<open>Header()\<close>, call \<^verbatim>\<open>WriteHeader\<close>, call \<^verbatim>\<open>Write\<close>.
  \<^verbatim>\<open>bufferWriter.Header\<close> returns the map itself, so besides the methods \<^verbatim>\<open>Add\<close>, \<^verbatim>\<open>Set\<close>
  and \<^verbatim>\<open>Del\<close> the handler has the assignment \<^verbatim>\<open>b.Header()[k] = vv\<close> (\<open>HeaderAssign\<close>) and
  \<^verbatim>\<open>delete(b.Header(), k)\<close> (\<open>HeaderDelete\<close>), which take the key as it is written.
\<close>

datatype resp_op =
    HeaderAdd string string
  | HeaderSet string string
  | HeaderDel string
  | HeaderAssign string "string list"
  | HeaderDelete string
  | WriteHeader int
  | Write bytes

text \<open>
  A wrapped handler is opaque. It is a function of the outbound request, of the bytes it
  can still read from the request's body, and of its own state \<open>'h\<close>; it answers with the
  operations it performs on the response writer, the number of body bytes it reads, and
  its new state. It reads the body it is given and does not close or seek it. Being a
  function, it is never nil.
\<close>

type_synonym 'h handler = "body_ref request \<Rightarrow> bytes \<Rightarrow> 'h \<Rightarrow> resp_op list \<times> nat \<times> 'h"

text \<open>The struct \<^verbatim>\<open>Streamer\<close>. The field \<^verbatim>\<open>next\<close> is \<open>nxt\<close> here; \<^verbatim>\<open>errHandler\<close> and
  \<^verbatim>\<open>log\<close> are interfaces that \<^verbatim>\<open>New\<close> tests against nil. An option setter changes the
  Streamer and returns an error or nil.\<close>

record 'h Streamer =
  maxRequestBodyBytes :: int
  memRequestBodyBytes :: int
  maxResponseBodyBytes :: int
  memResponseBodyBytes :: int
  retryPredicate :: "hpredicate option"
  nxt :: "'h handler"
  errHandler :: "errorHandler option"
  log :: "logger option"

type_synonym 'h optSetter = "'h Streamer \<Rightarrow> 'h Streamer \<times> error option"

subsection \<open>The environment\<close>

text \<open>
  The collaborators that are not in the file. The fallible operations of the buffer
  library fail when the environment says so (inside the loop: per attempt, by the number
  of the attempt that is running or has just completed).
  \<^verbatim>\<open>utils.DefaultHandler\<close> belongs to a package that is not among the sources and is taken
  as a parameter. Go leaves the order in which a \<^verbatim>\<open>range\<close> statement visits the entries of
  a map unspecified: \<open>range_order\<close> gives, for a map, its entries in the order in which the
  \<^verbatim>\<open>range\<close> of \<^verbatim>\<open>copyHeaders\<close> visits them.
\<close>

datatype new_fault = NewFails error | NewNil

record env =
  new_fault :: "new_fault option"
  size_fault :: "error option"
  writer_fault :: "int \<Rightarrow> error option"
  reader_fault :: "int \<Rightarrow> error option"
  seek_fault :: "int \<Rightarrow> error option"
  DefaultHandler :: "response_writer \<Rightarrow> bytes request \<Rightarrow> error option \<Rightarrow> response_writer"
  range_order :: "header \<Rightarrow> header"

subsection \<open>The state of one call of ServeHTTP\<close>

text \<open>The deferred calls: \<^verbatim>\<open>body.Close()\<close> of the request buffer, and for the attempt
  with the given number \<^verbatim>\<open>b.Close()\<close> (\<^verbatim>\<open>bufferWriter.Close\<close>, which closes the attempt's
  writer) and \<^verbatim>\<open>reader.Close()\<close>.\<close>

datatype resource = RBody | RWriter int | RReader int

text \<open>
  The calls that \<^verbatim>\<open>ServeHTTP\<close> makes on its collaborators, in order:
  \<^item> \<open>EvLog\<close>: \<^verbatim>\<open>s.log.Infof\<close> or \<^verbatim>\<open>s.log.Errorf\<close>, with the format string;
  \<^item> \<open>EvNew\<close>: \<^verbatim>\<open>multibuf.New(req.Body, ...)\<close>, which reads the request body;
  \<^item> \<open>EvNewWriter\<close>, \<open>EvReader\<close>: \<^verbatim>\<open>multibuf.NewWriterOnce\<close> and \<^verbatim>\<open>writer.Reader()\<close> of
    the attempt with the given number, when they succeed;
  \<^item> \<open>EvNext\<close>: \<^verbatim>\<open>s.next.ServeHTTP(b, outreq)\<close>, with the attempt number, the outbound
    request, the shared buffer as the handler finds it, and the calls the handler makes on
    the \<^verbatim>\<open>bufferWriter\<close>;
  \<^item> \<open>EvPredicate\<close>: the retry predicate, with its context;
  \<^item> \<open>EvCopy\<close>: the captured response of the attempt is written to the real writer;
  \<^item> \<open>EvSeek\<close>: \<^verbatim>\<open>body.Seek(0, 0)\<close>, when it succeeds;
  \<^item> \<open>EvErrHandler\<close>: \<^verbatim>\<open>s.errHandler.ServeHTTP(w, req, err)\<close>;
  \<^item> \<open>EvClose\<close>: a deferred \<^verbatim>\<open>Close\<close>;
  \<^item> \<open>EvPanic\<close>: a call on a nil interface.
\<close>

datatype event =
    EvLog level string
  | EvNew
  | EvNewWriter int
  | EvNext int "body_ref request" "multiReader option" "resp_op list"
  | EvReader int
  | EvPredicate retry_context
  | EvCopy int
  | EvSeek
  | EvErrHandler "error option"
  | EvClose resource
  | EvPanic

record 'h state =
  st_w :: response_writer
  st_body :: "multiReader option"
  st_next :: 'h
  st_trace :: "event list"
  st_defers :: "resource list"

text \<open>
  The record is extensible, and the functions that follow work on every extension of it
  (\<open>state_scheme\<close>): the state of one call is a part of the state of the program, which
  also holds the Streamer that the receiver of the methods points to (record \<open>process\<close>
  below).
\<close>

definition emit :: "event \<Rightarrow> ('h, 'z) state_scheme \<Rightarrow> ('h, 'z) state_scheme" where
  "emit e \<sigma> = \<sigma>\<lparr>st_trace := st_trace \<sigma> @ [e]\<rparr>"

text \<open>\<^verbatim>\<open>defer x.Close()\<close>: the call is pushed; it runs when \<^verbatim>\<open>ServeHTTP\<close> returns.\<close>

definition go_defer :: "resource \<Rightarrow> ('h, 'z) state_scheme \<Rightarrow> ('h, 'z) state_scheme" where
  "go_defer r \<sigma> = \<sigma>\<lparr>st_defers := r # st_defers \<sigma>\<rparr>"

definition run_defers :: "('h, 'z) state_scheme \<Rightarrow> ('h, 'z) state_scheme" where
  "run_defers \<sigma> = fold (\<lambda>r. emit (EvClose r)) (st_defers \<sigma>) (\<sigma>\<lparr>st_defers := []\<rparr>)"

definition panic :: "('h, 'z) state_scheme \<Rightarrow> ('h, 'z) state_scheme" where
  "panic \<sigma> = emit EvPanic \<sigma>"

subsection \<open>The host library's header map and response writer\<close>

text \<open>
  Modelled from the documentation of the host library (\<^verbatim>\<open>net/textproto\<close>):
  \<^verbatim>\<open>CanonicalMIMEHeaderKey\<close> converts the first letter and any letter that follows a hyphen
  to upper case and the other letters to lower case; a key that contains a space or any
  other byte that is not allowed in a header field name is returned as it is. The bytes
  allowed are the letters, the digits and the punctuation of an HTTP token.
\<close>

definition lower_letters :: string where
  "lower_letters = ''abcdefghijklmnopqrstuvwxyz''"

definition upper_letters :: string where
  "upper_letters = ''ABCDEFGHIJKLMNOPQRSTUVWXYZ''"

definition validHeaderFieldByte :: "char \<Rightarrow> bool" where
  "validHeaderFieldByte c =
     (c \<in> set (lower_letters @ upper_letters @ ''0123456789'' @ ''!#$%&*+-.^_|~'' @
               [CHR 0x27, CHR 0x60]))"

definition toUpper :: "char \<Rightarrow> char" where
  "toUpper c = (case map_of (zip lower_letters upper_letters) c of None \<Rightarrow> c | Some u \<Rightarrow> u)"

definition toLower :: "char \<Rightarrow> char" where
  "toLower c = (case map_of (zip upper_letters lower_letters) c of None \<Rightarrow> c | Some l \<Rightarrow> l)"

fun canonical_bytes :: "bool \<Rightarrow> string \<Rightarrow> string" where
  "canonical_bytes upper [] = []"
| "canonical_bytes upper (c # cs) =
     (if upper then toUpper c else toLower c) # canonical_bytes (c = CHR ''-'') cs"

definition CanonicalMIMEHeaderKey :: "string \<Rightarrow> string" where
  "CanonicalMIMEHeaderKey k =
     (if list_all validHeaderFieldByte k then canonical_bytes True k else k)"

text \<open>The index expression \<^verbatim>\<open>h[k]\<close> on a header map: the values stored under the key as it
  is written, the nil slice (no values) when there is no entry.\<close>

definition header_at :: "header \<Rightarrow> string \<Rightarrow> string list" where
  "header_at h k = (case map_of h k of None \<Rightarrow> [] | Some vv \<Rightarrow> vv)"

text \<open>\<^verbatim>\<open>Header.Add\<close>, \<^verbatim>\<open>Header.Set\<close> and \<^verbatim>\<open>Header.Del\<close> of the host library: each works on the
  entry of the canonical form of the key it is given.\<close>

definition header_Add :: "string \<Rightarrow> string \<Rightarrow> header \<Rightarrow> header" where
  "header_Add k v h =
     AList.update (CanonicalMIMEHeaderKey k) (header_at h (CanonicalMIMEHeaderKey k) @ [v]) h"

definition header_Set :: "string \<Rightarrow> string \<Rightarrow> header \<Rightarrow> header" where
  "header_Set k v h = AList.update (CanonicalMIMEHeaderKey k) [v] h"

definition header_Del :: "string \<Rightarrow> header \<Rightarrow> header" where
  "header_Del k h = AList.delete (CanonicalMIMEHeaderKey k) h"

definition rw_WriteHeader :: "int \<Rightarrow> response_writer \<Rightarrow> response_writer" where
  "rw_WriteHeader c w = w\<lparr>rw_codes := rw_codes w @ [c]\<rparr>"

definition rw_Write :: "bytes \<Rightarrow> response_writer \<Rightarrow> response_writer" where
  "rw_Write buf w = w\<lparr>rw_body := rw_body w @ buf\<rparr>"

text \<open>\<^verbatim>\<open>io.Copy(w, reader)\<close>: everything the reader holds is written to \<open>w\<close>.\<close>

definition io_Copy :: "bytes \<Rightarrow> response_writer \<Rightarrow> response_writer" where
  "io_Copy reader w = rw_Write reader w"

subsection \<open>The buffer library\<close>

text \<open>
  Modelled from the spec: \<^verbatim>\<open>multibuf.New\<close> copies the request body into a buffer; the
  copy fails when it exceeds a positive maximum or when the storage fails. The result is
  Go's pair (body, err).
\<close>

definition multibuf_New :: "env \<Rightarrow> bytes \<Rightarrow> int \<Rightarrow> int \<Rightarrow> multiReader option \<times> error option" where
  "multibuf_New e rd maxBytes memBytes =
     (case new_fault e of
        Some (NewFails err) \<Rightarrow> (None, Some err)
      | Some NewNil \<Rightarrow> (None, None)
      | None \<Rightarrow>
          if 0 < maxBytes \<and> maxBytes < int (length rd)
          then (None, Some (MaxSizeReachedError maxBytes))
          else (Some \<lparr>mr_data = rd, mr_pos = 0\<rparr>, None))"

text \<open>Modelled from the spec: \<^verbatim>\<open>Size\<close> is the number of bytes the buffer holds.\<close>

definition multiReader_Size :: "env \<Rightarrow> multiReader \<Rightarrow> error + int" where
  "multiReader_Size e mr =
     (case size_fault e of Some err \<Rightarrow> Inl err | None \<Rightarrow> Inr (int (length (mr_data mr))))"

text \<open>Modelled from the spec: reading \<open>n\<close> bytes moves the offset, at most to the end;
  what is left to read is the content from the offset on.\<close>

definition multiReader_Read :: "nat \<Rightarrow> multiReader \<Rightarrow> multiReader" where
  "multiReader_Read n mr = mr\<lparr>mr_pos := min (mr_pos mr + n) (length (mr_data mr))\<rparr>"

definition multiReader_rest :: "multiReader \<Rightarrow> bytes" where
  "multiReader_rest mr = drop (mr_pos mr) (mr_data mr)"

text \<open>Modelled from the spec: \<^verbatim>\<open>body.Seek(0, 0)\<close> rewinds the buffer to its start.\<close>

definition body_Seek ::
  "env \<Rightarrow> int \<Rightarrow> ('h, 'z) state_scheme \<Rightarrow> error + ('h, 'z) state_scheme" where
  "body_Seek e attempt \<sigma> =
     (case seek_fault e attempt of
        Some err \<Rightarrow> Inl err
      | None \<Rightarrow> Inr ((emit EvSeek \<sigma>)\<lparr>st_body := map_option (\<lambda>mr. mr\<lparr>mr_pos := 0\<rparr>) (st_body \<sigma>)\<rparr>))"

text \<open>Modelled from the spec: a new writer is empty and keeps its options; its reader
  gives back the bytes written.\<close>

definition multibuf_NewWriterOnce :: "env \<Rightarrow> int \<Rightarrow> int \<Rightarrow> int \<Rightarrow> error + writerOnce" where
  "multibuf_NewWriterOnce e attempt maxBytes memBytes =
     (case writer_fault e attempt of
        Some err \<Rightarrow> Inl err
      | None \<Rightarrow> Inr \<lparr>wo_maxBytes = maxBytes, wo_memBytes = memBytes, wo_data = []\<rparr>)"

text \<open>Modelled from the spec: a write that would pass a positive maximum stores nothing.\<close>

definition writerOnce_Write :: "bytes \<Rightarrow> writerOnce \<Rightarrow> writerOnce" where
  "writerOnce_Write buf w =
     (if 0 < wo_maxBytes w \<and> wo_maxBytes w < int (length (wo_data w) + length buf)
      then w else w\<lparr>wo_data := wo_data w @ buf\<rparr>)"

definition writerOnce_Reader :: "env \<Rightarrow> int \<Rightarrow> writerOnce \<Rightarrow> error + bytes" where
  "writerOnce_Reader e attempt w =
     (case reader_fault e attempt of Some err \<Rightarrow> Inl err | None \<Rightarrow> Inr (wo_data w))"

subsection \<open>Package utils\<close>

text \<open>
  Modelled from the spec: \<^verbatim>\<open>utils.CopyURL\<close> and \<^verbatim>\<open>utils.CopyHeaders\<close> are not among the
  sources. The spec says that the envelope's URL and headers are deep copies of the
  original's: a copy of a value is the value, and the headers are added to the
  destination key by key and value by value, under the keys they have.
\<close>

definition utils_CopyURL :: "string \<Rightarrow> string" where
  "utils_CopyURL u = u"

definition utils_CopyHeaders :: "header \<Rightarrow> header \<Rightarrow> header" where
  "utils_CopyHeaders dst src =
     fold (\<lambda>(k, vv) d. fold (\<lambda>v d'. AList.update k (header_at d' k @ [v]) d') vv d) src dst"

subsection \<open>bufferWriter, copyHeaders, SizeErrHandler\<close>

definition bufferWriter_Header :: "bufferWriter \<Rightarrow> header" where
  "bufferWriter_Header b = bw_header b"

definition bufferWriter_Write :: "bytes \<Rightarrow> bufferWriter \<Rightarrow> bufferWriter" where
  "bufferWriter_Write buf b = b\<lparr>bw_buffer := writerOnce_Write buf (bw_buffer b)\<rparr>"

definition bufferWriter_WriteHeader :: "int \<Rightarrow> bufferWriter \<Rightarrow> bufferWriter" where
  "bufferWriter_WriteHeader c b = b\<lparr>bw_code := c\<rparr>"

fun apply_op :: "resp_op \<Rightarrow> bufferWriter \<Rightarrow> bufferWriter" where
  "apply_op (HeaderAdd k v) b = b\<lparr>bw_header := header_Add k v (bufferWriter_Header b)\<rparr>"
| "apply_op (HeaderSet k v) b = b\<lparr>bw_header := header_Set k v (bufferWriter_Header b)\<rparr>"
| "apply_op (HeaderDel k) b = b\<lparr>bw_header := header_Del k (bufferWriter_Header b)\<rparr>"
| "apply_op (HeaderAssign k vv) b = b\<lparr>bw_header := AList.update k vv (bufferWriter_Header b)\<rparr>"
| "apply_op (HeaderDelete k) b = b\<lparr>bw_header := AList.delete k (bufferWriter_Header b)\<rparr>"
| "apply_op (WriteHeader c) b = bufferWriter_WriteHeader c b"
| "apply_op (Write buf) b = bufferWriter_Write buf b"

text \<open>\<^verbatim>\<open>copyHeaders\<close>: for every entry of \<open>src\<close>, in the order of the \<^verbatim>\<open>range\<close>, and every
  value of the entry in order, \<^verbatim>\<open>dst.Add(k, v)\<close>.\<close>

definition copyHeaders :: "env \<Rightarrow> header \<Rightarrow> header \<Rightarrow> header" where
  "copyHeaders e dst src = fold (\<lambda>(k, vv) d. fold (header_Add k) vv d) (range_order e src) dst"

definition SizeErrHandler_ServeHTTP ::
  "env \<Rightarrow> response_writer \<Rightarrow> bytes request \<Rightarrow> error option \<Rightarrow> response_writer" where
  "SizeErrHandler_ServeHTTP e w req err =
     (case err of
        Some (MaxSizeReachedError m) \<Rightarrow>
          rw_Write (StatusText StatusRequestEntityTooLarge)
            (rw_WriteHeader StatusRequestEntityTooLarge w)
      | _ \<Rightarrow> DefaultHandler e w req err)"

definition ErrorHandler_ServeHTTP ::
  "env \<Rightarrow> errorHandler \<Rightarrow> response_writer \<Rightarrow> bytes request \<Rightarrow> error option \<Rightarrow> response_writer" where
  "ErrorHandler_ServeHTTP e h w req err =
     (case h of
        SizeErrHandler \<Rightarrow> SizeErrHandler_ServeHTTP e w req err
      | CustomErrHandler f \<Rightarrow> f w req err)"

text \<open>The package variable \<^verbatim>\<open>errHandler\<close>.\<close>

definition pkg_errHandler :: errorHandler where
  "pkg_errHandler = SizeErrHandler"

subsection \<open>New and the option setters\<close>

fun apply_setters :: "'h optSetter list \<Rightarrow> 'h Streamer \<Rightarrow> error + 'h Streamer" where
  "apply_setters [] strm = Inr strm"
| "apply_setters (f # fs) strm =
     (case f strm of
        (strm', Some err) \<Rightarrow> Inl err
      | (strm', None) \<Rightarrow> apply_setters fs strm')"

definition New_init :: "'h handler \<Rightarrow> 'h Streamer" where
  "New_init next_h =
     \<lparr>maxRequestBodyBytes = DefaultMaxBodyBytes,
      memRequestBodyBytes = DefaultMemBodyBytes,
      maxResponseBodyBytes = DefaultMaxBodyBytes,
      memResponseBodyBytes = DefaultMemBodyBytes,
      retryPredicate = None,
      nxt = next_h,
      errHandler = None,
      log = None\<rparr>"

definition New_defaults :: "'h Streamer \<Rightarrow> 'h Streamer" where
  "New_defaults strm =
     (let strm1 = (case errHandler strm of
                     None \<Rightarrow> strm\<lparr>errHandler := Some pkg_errHandler\<rparr>
                   | Some h \<Rightarrow> strm)
      in (case log strm1 of
            None \<Rightarrow> strm1\<lparr>log := Some NullLogger\<rparr>
          | Some l \<Rightarrow> strm1))"

definition New :: "'h handler \<Rightarrow> 'h optSetter list \<Rightarrow> error + 'h Streamer" where
  "New next_h setters =
     (case apply_setters setters (New_init next_h) of
        Inl err \<Rightarrow> Inl err
      | Inr strm \<Rightarrow> Inr (New_defaults strm))"

text \<open>
  Modelled from the spec: \<^verbatim>\<open>parseExpression\<close> is in a file of the package that is not
  among the sources; the spec gives it as "compile(text) gives an evaluator or a compile
  error". \<^verbatim>\<open>Retry\<close> takes it as its first argument.
\<close>

definition Retry :: "(string \<Rightarrow> error + hpredicate) \<Rightarrow> string \<Rightarrow> 'h optSetter" where
  "Retry parseExpression predicate s =
     (case parseExpression predicate of
        Inl err \<Rightarrow> (s, Some err)
      | Inr p \<Rightarrow> (s\<lparr>retryPredicate := Some p\<rparr>, None))"

definition Logger :: "logger option \<Rightarrow> 'h optSetter" where
  "Logger l s = (s\<lparr>log := l\<rparr>, None)"

definition ErrorHandler :: "errorHandler option \<Rightarrow> 'h optSetter" where
  "ErrorHandler h s = (s\<lparr>errHandler := h\<rparr>, None)"

definition MaxRequestBodyBytes :: "int \<Rightarrow> 'h optSetter" where
  "MaxRequestBodyBytes m s =
     (if m < 0 then (s, Some (Errorf ''max bytes should be >= 0 got %d'' m))
      else (s\<lparr>maxRequestBodyBytes := m\<rparr>, None))"

definition MemRequestBodyBytes :: "int \<Rightarrow> 'h optSetter" where
  "MemRequestBodyBytes m s =
     (if m < 0 then (s, Some (Errorf ''mem bytes should be >= 0 got %d'' m))
      else (s\<lparr>memRequestBodyBytes := m\<rparr>, None))"

definition MaxResponseBodyBytes :: "int \<Rightarrow> 'h optSetter" where
  "MaxResponseBodyBytes m s =
     (if m < 0 then (s, Some (Errorf ''max bytes should be >= 0 got %d'' m))
      else (s\<lparr>maxResponseBodyBytes := m\<rparr>, None))"

definition MemResponseBodyBytes :: "int \<Rightarrow> 'h optSetter" where
  "MemResponseBodyBytes m s =
     (if m < 0 then (s, Some (Errorf ''mem bytes should be >= 0 got %d'' m))
      else (s\<lparr>memResponseBodyBytes := m\<rparr>, None))"


subsection \<open>ServeHTTP\<close>

definition copyRequest :: "'h Streamer \<Rightarrow> bytes request \<Rightarrow> body_ref \<Rightarrow> int \<Rightarrow> body_ref request" where
  "copyRequest s req body bodySize =
     \<lparr>Method = Method req,
      URL = utils_CopyURL (URL req),
      Header = utils_CopyHeaders [] (Header req),
      ContentLength = bodySize,
      TransferEncoding = [],
      Body = body\<rparr>"

definition checkLimit :: "'h Streamer \<Rightarrow> 'b request \<Rightarrow> error option" where
  "checkLimit s req =
     (if maxRequestBodyBytes s \<le> 0 then None
      else if maxRequestBodyBytes s < ContentLength req
           then Some (MaxSizeReachedError (maxRequestBodyBytes s))
      else None)"

text \<open>A call on \<^verbatim>\<open>s.log\<close>; on a nil logger the call panics (\<open>Inl\<close>).\<close>

definition s_log ::
  "'h Streamer \<Rightarrow> level \<Rightarrow> string \<Rightarrow> ('h, 'z) state_scheme
     \<Rightarrow> ('h, 'z) state_scheme + ('h, 'z) state_scheme" where
  "s_log s lvl fmt \<sigma> =
     (case log s of
        None \<Rightarrow> Inl (panic \<sigma>)
      | Some l \<Rightarrow> Inr (emit (EvLog lvl fmt) \<sigma>))"

text \<open>\<^verbatim>\<open>s.errHandler.ServeHTTP(w, req, err)\<close>; every call is followed by \<^verbatim>\<open>return\<close>.\<close>

definition s_errHandler ::
  "'h Streamer \<Rightarrow> env \<Rightarrow> bytes request \<Rightarrow> error option \<Rightarrow> ('h, 'z) state_scheme
     \<Rightarrow> ('h, 'z) state_scheme" where
  "s_errHandler s e req err \<sigma> =
     (case errHandler s of
        None \<Rightarrow> panic \<sigma>
      | Some h \<Rightarrow> (emit (EvErrHandler err) \<sigma>)\<lparr>st_w := ErrorHandler_ServeHTTP e h (st_w \<sigma>) req err\<rparr>)"

text \<open>
  \<^verbatim>\<open>s.next.ServeHTTP(b, outreq)\<close>: the handler sees what is left of the shared buffer,
  performs its operations on \<open>b\<close> and reads from the buffer.
\<close>

definition next_ServeHTTP ::
  "'h Streamer \<Rightarrow> int \<Rightarrow> body_ref request \<Rightarrow> bufferWriter \<Rightarrow> ('h, 'z) state_scheme
     \<Rightarrow> bufferWriter \<times> ('h, 'z) state_scheme" where
  "next_ServeHTTP s attempt outreq b \<sigma> =
     (case nxt s outreq (case st_body \<sigma> of None \<Rightarrow> [] | Some mr \<Rightarrow> multiReader_rest mr) (st_next \<sigma>) of
        (ops, n, h') \<Rightarrow>
          (fold apply_op ops b,
           (emit (EvNext attempt outreq (st_body \<sigma>) ops) \<sigma>)
             \<lparr>st_next := h', st_body := map_option (multiReader_Read n) (st_body \<sigma>)\<rparr>))"

text \<open>The branch of the loop that delivers the captured response:
  \<^verbatim>\<open>copyHeaders(w.Header(), b.Header()); w.WriteHeader(b.code); io.Copy(w, reader)\<close>.\<close>

definition deliver :: "env \<Rightarrow> bufferWriter \<Rightarrow> bytes \<Rightarrow> response_writer \<Rightarrow> response_writer" where
  "deliver e b reader w =
     io_Copy reader
       (rw_WriteHeader (bw_code b)
         (w\<lparr>rw_header := copyHeaders e (rw_header w) (bufferWriter_Header b)\<rparr>))"

definition finalize ::
  "env \<Rightarrow> bufferWriter \<Rightarrow> bytes \<Rightarrow> int \<Rightarrow> ('h, 'z) state_scheme \<Rightarrow> ('h, 'z) state_scheme" where
  "finalize e b reader attempt \<sigma> =
     (emit (EvCopy attempt) \<sigma>)\<lparr>st_w := deliver e b reader (st_w \<sigma>)\<rparr>"

definition retry_ctx :: "'h Streamer \<Rightarrow> bytes request \<Rightarrow> int \<Rightarrow> bufferWriter \<Rightarrow> retry_context" where
  "retry_ctx s req attempt b =
     \<lparr>ctx_r = req, ctx_attempt = attempt, ctx_responseCode = bw_code b, ctx_log = log s\<rparr>"

text \<open>
  One pass through the body of the \<^verbatim>\<open>for\<close> loop. \<open>Inl\<close> is a \<^verbatim>\<open>return\<close> (or a panic)
  with the state it leaves; \<open>Inr\<close> is the end of the body, with the loop variables
  \<^verbatim>\<open>outreq\<close> and \<^verbatim>\<open>attempt\<close> as the next pass finds them.
\<close>

definition attempt_body ::
  "'h Streamer \<Rightarrow> env \<Rightarrow> bytes request \<Rightarrow> int \<Rightarrow> body_ref request \<Rightarrow> int \<Rightarrow> ('h, 'z) state_scheme
     \<Rightarrow> ('h, 'z) state_scheme + (body_ref request \<times> int \<times> ('h, 'z) state_scheme)" where
  "attempt_body s e req totalSize outreq attempt \<sigma> =
     (case multibuf_NewWriterOnce e attempt (maxResponseBodyBytes s) (memResponseBodyBytes s) of
        Inl err \<Rightarrow> Inl (s_errHandler s e req (Some err) \<sigma>)
      | Inr writer \<Rightarrow>
     (case next_ServeHTTP s attempt outreq \<lparr>bw_header = [], bw_code = 0, bw_buffer = writer\<rparr>
             (go_defer (RWriter attempt) (emit (EvNewWriter attempt) \<sigma>)) of
        (b, \<sigma>1) \<Rightarrow>
     (case s_log s LInfo ''next responded: %v'' \<sigma>1 of
        Inl \<sigma>p \<Rightarrow> Inl \<sigma>p
      | Inr \<sigma>2 \<Rightarrow>
     (case writerOnce_Reader e attempt (bw_buffer b) of
        Inl err \<Rightarrow>
          (case s_log s LError ''failed to read response, err %v'' \<sigma>2 of
             Inl \<sigma>p \<Rightarrow> Inl \<sigma>p
           | Inr \<sigma>3 \<Rightarrow> Inl (s_errHandler s e req (Some err) \<sigma>3))
      | Inr reader \<Rightarrow>
     (let \<sigma>3 = go_defer (RReader attempt) (emit (EvReader attempt) \<sigma>2) in
      case retryPredicate s of
        None \<Rightarrow> Inl (finalize e b reader attempt \<sigma>3)
      | Some p \<Rightarrow>
          if DefaultMaxRetryAttempts < attempt then Inl (finalize e b reader attempt \<sigma>3)
          else
     (let \<sigma>4 = emit (EvPredicate (retry_ctx s req attempt b)) \<sigma>3 in
      if \<not> p (retry_ctx s req attempt b) then Inl (finalize e b reader attempt \<sigma>4)
      else
     (case body_Seek e attempt \<sigma>4 of
        Inl err \<Rightarrow>
          (case s_log s LError ''Failed to rewind: error: %v'' \<sigma>4 of
             Inl \<sigma>p \<Rightarrow> Inl \<sigma>p
           | Inr \<sigma>5 \<Rightarrow> Inl (s_errHandler s e req (Some err) \<sigma>5))
      | Inr \<sigma>5 \<Rightarrow>
     (case s_log s LInfo ''retry Request(%v %v) attempt %v'' \<sigma>5 of
        Inl \<sigma>p \<Rightarrow> Inl \<sigma>p
      | Inr \<sigma>6 \<Rightarrow> Inr (copyRequest s req Multibuf totalSize, attempt + 1, \<sigma>6)))))))))"

text \<open>The \<^verbatim>\<open>for\<close> loop.\<close>

function attempt_loop ::
  "'h Streamer \<Rightarrow> env \<Rightarrow> bytes request \<Rightarrow> int \<Rightarrow> body_ref request \<Rightarrow> int \<Rightarrow> ('h, 'z) state_scheme
     \<Rightarrow> ('h, 'z) state_scheme" where
  "attempt_loop s e req totalSize outreq attempt \<sigma> =
     (case attempt_body s e req totalSize outreq attempt \<sigma> of
        Inl \<sigma>' \<Rightarrow> \<sigma>'
      | Inr (outreq', attempt', \<sigma>') \<Rightarrow> attempt_loop s e req totalSize outreq' attempt' \<sigma>')"
  by pat_completeness auto
termination
  by (relation "measure (\<lambda>(s, e, req, totalSize, outreq, attempt, \<sigma>). nat (DefaultMaxRetryAttempts + 1 - attempt))")
     (auto simp: attempt_body_def Let_def DefaultMaxRetryAttempts_def
           split: sum.splits prod.splits option.splits if_splits)

definition ServeHTTP_body ::
  "'h Streamer \<Rightarrow> env \<Rightarrow> bytes request \<Rightarrow> ('h, 'z) state_scheme \<Rightarrow> ('h, 'z) state_scheme" where
  "ServeHTTP_body s e req \<sigma> =
     (case checkLimit s req of
        Some err \<Rightarrow>
          (case s_log s LInfo ''request body over limit: %v'' \<sigma> of
             Inl \<sigma>p \<Rightarrow> \<sigma>p
           | Inr \<sigma>1 \<Rightarrow> s_errHandler s e req (Some err) \<sigma>1)
      | None \<Rightarrow>
     (case multibuf_New e (Body req) (maxRequestBodyBytes s) (memRequestBodyBytes s) of
        (body, Some err) \<Rightarrow> s_errHandler s e req (Some err) (emit EvNew \<sigma>)
      | (None, None) \<Rightarrow> s_errHandler s e req None (emit EvNew \<sigma>)
      | (Some mr, None) \<Rightarrow>
     (case multiReader_Size e mr of
        Inl err \<Rightarrow>
          (case s_log s LError ''failed to get size, err %v''
                  (go_defer RBody ((emit EvNew \<sigma>)\<lparr>st_body := Some mr\<rparr>)) of
             Inl \<sigma>p \<Rightarrow> \<sigma>p
           | Inr \<sigma>1 \<Rightarrow> s_errHandler s e req (Some err) \<sigma>1)
      | Inr totalSize \<Rightarrow>
          attempt_loop s e req totalSize (copyRequest s req Multibuf totalSize) 1
            (go_defer RBody ((emit EvNew \<sigma>)\<lparr>st_body := Some mr\<rparr>)))))"

text \<open>\<^verbatim>\<open>ServeHTTP\<close>: the body, then the deferred calls, last in first out.\<close>

definition ServeHTTP ::
  "'h Streamer \<Rightarrow> env \<Rightarrow> bytes request \<Rightarrow> ('h, 'z) state_scheme \<Rightarrow> ('h, 'z) state_scheme" where
  "ServeHTTP s e req \<sigma> = run_defers (ServeHTTP_body s e req \<sigma>)"

text \<open>The state in which the host server calls \<^verbatim>\<open>ServeHTTP\<close> with writer \<open>w\<close>.\<close>

definition start :: "response_writer \<Rightarrow> 'h \<Rightarrow> 'h state" where
  "start w h = \<lparr>st_w = w, st_body = None, st_next = h, st_trace = [], st_defers = []\<rparr>"

subsection \<open>The methods of a Streamer over its lifetime\<close>







subsection \<open>Observations on a trace\<close>

text \<open>The calls of the wrapped handler, the contexts given to the retry predicate, and
  the attempts whose captured response was copied to the real writer.\<close>

definition next_calls ::
  "event list \<Rightarrow> (int \<times> body_ref request \<times> multiReader option \<times> resp_op list) list" where
  "next_calls tr = [(n, r, mb, ops). EvNext n r mb ops \<leftarrow> tr]"

definition predicate_calls :: "event list \<Rightarrow> retry_context list" where
  "predicate_calls tr = [c. EvPredicate c \<leftarrow> tr]"

definition copies :: "event list \<Rightarrow> int list" where
  "copies tr = [n. EvCopy n \<leftarrow> tr]"

definition last_ops :: "event list \<Rightarrow> resp_op list" where
  "last_ops tr = (case rev (next_calls tr) of [] \<Rightarrow> [] | (n, r, mb, ops) # cs \<Rightarrow> ops)"

text \<open>The \<^verbatim>\<open>bufferWriter\<close> of an attempt after the handler has made the calls \<open>ops\<close> on it:
  \<^verbatim>\<open>ServeHTTP\<close> builds it with a new header map, no code and the attempt's writer.\<close>

definition captured :: "'h Streamer \<Rightarrow> resp_op list \<Rightarrow> bufferWriter" where
  "captured s ops =
     fold apply_op ops
       \<lparr>bw_header = [], bw_code = 0,
        bw_buffer = \<lparr>wo_maxBytes = maxResponseBodyBytes s,
                     wo_memBytes = memResponseBodyBytes s, wo_data = []\<rparr>\<rparr>"

definition ctx_of ::
  "'h Streamer \<Rightarrow> bytes request \<Rightarrow> int \<times> body_ref request \<times> multiReader option \<times> resp_op list
     \<Rightarrow> retry_context" where
  "ctx_of s req c = (case c of (n, r, mb, ops) \<Rightarrow> retry_ctx s req n (captured s ops))"

text \<open>The status and the header map that a list of calls leaves in a new
  \<^verbatim>\<open>bufferWriter\<close>: the argument of the last \<^verbatim>\<open>WriteHeader\<close> (0 when there is none), and
  the map built from the empty one.\<close>

fun status_step :: "resp_op \<Rightarrow> int \<Rightarrow> int" where
  "status_step (WriteHeader c) c0 = c"
| "status_step op c0 = c0"

definition status_of :: "resp_op list \<Rightarrow> int" where
  "status_of ops = fold status_step ops 0"

fun header_step :: "resp_op \<Rightarrow> header \<Rightarrow> header" where
  "header_step (HeaderAdd k v) hs = header_Add k v hs"
| "header_step (HeaderSet k v) hs = header_Set k v hs"
| "header_step (HeaderDel k) hs = header_Del k hs"
| "header_step (HeaderAssign k vv) hs = AList.update k vv hs"
| "header_step (HeaderDelete k) hs = AList.delete k hs"
| "header_step op hs = hs"

definition response_header :: "resp_op list \<Rightarrow> header" where
  "response_header ops = fold header_step ops []"

text \<open>The values that the entries of a header map hold under the keys whose canonical form
  is \<open>K\<close>, in the order of the entries; a map whose keys are all canonical; and an
  environment in which a \<^verbatim>\<open>range\<close> visits every entry of a map once.\<close>

definition values_under :: "header \<Rightarrow> string \<Rightarrow> string list" where
  "values_under hs K = concat (map snd (filter (\<lambda>(k, vv). CanonicalMIMEHeaderKey k = K) hs))"

definition canonical_keys :: "header \<Rightarrow> bool" where
  "canonical_keys hs = list_all (\<lambda>(k, vv). CanonicalMIMEHeaderKey k = k) hs"

definition visits_every_entry :: "env \<Rightarrow> bool" where
  "visits_every_entry e = (\<forall>hs. mset (range_order e hs) = mset hs)"

text \<open>A handler that leaves the status \<open>c\<close> on every invocation.\<close>

definition answers :: "'h handler \<Rightarrow> int \<Rightarrow> bool" where
  "answers nh c = (\<forall>r a h. status_of (fst (nh r a h)) = c)"

fun is_resource :: "event \<Rightarrow> bool" where
  "is_resource (EvNewWriter n) = True"
| "is_resource (EvReader n) = True"
| "is_resource (EvClose r) = True"
| "is_resource ev = False"

fun is_WriteHeader :: "resp_op \<Rightarrow> bool" where
  "is_WriteHeader (WriteHeader c) = True"
| "is_WriteHeader op = False"

text \<open>The one operation that stores a key in the header map as it is written.\<close>

fun is_HeaderAssign :: "resp_op \<Rightarrow> bool" where
  "is_HeaderAssign (HeaderAssign k vv) = True"
| "is_HeaderAssign op = False"

text \<open>The response captures that are open after a run of events, oldest first, and the
  largest number of them that is open at any point of a trace.\<close>

fun track :: "event \<Rightarrow> int list \<Rightarrow> int list" where
  "track (EvNewWriter n) cur = cur @ [n]"
| "track (EvClose (RWriter n)) cur = removeAll n cur"
| "track ev cur = cur"

fun peak_open :: "event list \<Rightarrow> int list \<Rightarrow> nat" where
  "peak_open [] cur = length cur"
| "peak_open (ev # tr) cur = max (length cur) (peak_open tr (track ev cur))"

text \<open>The environment in which no operation of the buffer library fails.\<close>

definition fault_free :: "env \<Rightarrow> bool" where
  "fault_free e =
     (new_fault e = None \<and> size_fault e = None \<and> (\<forall>n. writer_fault e n = None) \<and>
      (\<forall>n. reader_fault e n = None) \<and> (\<forall>n. seek_fault e n = None))"

text \<open>A call of the wrapped handler with the request \<open>outreq\<close>, on a buffer that holds
  \<open>d\<close> and stands at offset 0.\<close>

definition same_call ::
  "body_ref request \<Rightarrow> bytes \<Rightarrow> int \<times> body_ref request \<times> multiReader option \<times> resp_op list \<Rightarrow> bool" where
  "same_call outreq d = (\<lambda>(n, r, mb, ops). r = outreq \<and> mb = Some \<lparr>mr_data = d, mr_pos = 0\<rparr>)"

text \<open>How a call of \<^verbatim>\<open>ServeHTTP\<close> ends, for the proofs: either one captured response was
  copied to the real writer, the one of the last invocation of the handler; or none was,
  and the real writer is untouched or was given to the error handler.\<close>

definition outcome ::
  "'h Streamer \<Rightarrow> env \<Rightarrow> bytes request \<Rightarrow> ('h, 'z) state_scheme \<Rightarrow> ('h, 'z) state_scheme \<Rightarrow> bool" where
  "outcome s e req \<sigma> \<sigma>' =
     ((\<exists>m. copies (st_trace \<sigma>') = copies (st_trace \<sigma>) @ [m] \<and>
           st_w \<sigma>' = deliver e (captured s (last_ops (st_trace \<sigma>')))
                        (wo_data (bw_buffer (captured s (last_ops (st_trace \<sigma>'))))) (st_w \<sigma>)) \<or>
      (copies (st_trace \<sigma>') = copies (st_trace \<sigma>) \<and>
         (st_w \<sigma>' = st_w \<sigma> \<or>
          (\<exists>eh err. errHandler s = Some eh \<and>
             st_w \<sigma>' = ErrorHandler_ServeHTTP e eh (st_w \<sigma>) req err))))"

text \<open>The \<^verbatim>\<open>Close\<close> calls of a trace.\<close>

definition closes :: "event list \<Rightarrow> resource list" where
  "closes tr = [r. EvClose r \<leftarrow> tr]"

subsection \<open>Example inputs\<close>

definition env0 :: env where
  "env0 =
     \<lparr>new_fault = None, size_fault = None, writer_fault = (\<lambda>n. None),
      reader_fault = (\<lambda>n. None), seek_fault = (\<lambda>n. None),
      DefaultHandler = (\<lambda>w req err. rw_Write ''Internal Server Error'' (rw_WriteHeader 500 w)),
      range_order = (\<lambda>hs. hs)\<rparr>"

text \<open>A chunked request of unknown length with a five-byte body, and the same body with
  its length declared.\<close>

definition req0 :: "bytes request" where
  "req0 =
     \<lparr>Method = ''POST'', URL = ''/upload'', Header = [(''Content-Type'', [''text/plain''])],
      ContentLength = - 1, TransferEncoding = [''chunked''], Body = ''hello''\<rparr>"

definition req5 :: "bytes request" where
  "req5 =
     \<lparr>Method = ''POST'', URL = ''/upload'', Header = [(''Content-Type'', [''text/plain''])],
      ContentLength = 5, TransferEncoding = [], Body = ''hello''\<rparr>"

definition w0 :: response_writer where
  "w0 = \<lparr>rw_header = [], rw_codes = [], rw_body = []\<rparr>"

text \<open>A handler that reads the whole body, counts its invocations in a header, and answers
  502; one that answers 200 explicitly; one that only writes a body; the handler of the
  example in the package documentation, which only writes \<^verbatim>\<open>hello\<close>; and one that sets a
  header with \<^verbatim>\<open>Set\<close> and assigns another to the map under a key in lower case.\<close>

definition h502 :: "nat handler" where
  "h502 r avail h =
     ([HeaderSet ''X-Attempt'' (replicate (Suc h) CHR ''I''), WriteHeader 502, Write ''bad gateway''],
      length avail, Suc h)"

definition h200 :: "nat handler" where
  "h200 r avail h = ([WriteHeader 200, Write ''ok''], length avail, Suc h)"

definition h_silent :: "nat handler" where
  "h_silent r avail h = ([Write ''ok''], length avail, Suc h)"

definition h_hello :: "nat handler" where
  "h_hello r avail h = ([Write ''hello''], 0, h)"

definition h_lower :: "nat handler" where
  "h_lower r avail h =
     ([HeaderSet ''X-A'' ''0'', HeaderAssign ''x-a'' [''1''], WriteHeader 200, Write ''ok''],
      length avail, Suc h)"

text \<open>
  Modelled from the spec: the retry expressions of the examples as the compiler would
  evaluate them (\<^verbatim>\<open>Attempts()\<close> is the 1-based attempt number, \<^verbatim>\<open>ResponseCode()\<close> the
  status of the attempt that has just completed), and a compiler that knows these texts.
\<close>

definition pred_attempts2_502 :: hpredicate where
  "pred_attempts2_502 c = (ctx_attempt c \<le> 2 \<and> ctx_responseCode c = 502)"

definition pred_502 :: hpredicate where
  "pred_502 c = (ctx_responseCode c = 502)"

definition pred_attempts2_200 :: hpredicate where
  "pred_attempts2_200 c = (ctx_attempt c \<le> 2 \<and> ctx_responseCode c = 200)"

definition parse0 :: "string \<Rightarrow> error + hpredicate" where
  "parse0 t =
     (if t = ''Attempts() <= 2 && ResponseCode() == 502'' then Inr pred_attempts2_502
      else if t = ''ResponseCode() == 502'' then Inr pred_502
      else if t = ''Attempts() <= 2 && ResponseCode() == 200'' then Inr pred_attempts2_200
      else Inl (ParseError t))"

text \<open>An error handler of the caller's that answers every error with 418.\<close>

definition teapot :: "response_writer \<Rightarrow> bytes request \<Rightarrow> error option \<Rightarrow> response_writer" where
  "teapot w req err = rw_WriteHeader 418 w"

text \<open>The Streamers that \<^verbatim>\<open>New\<close> returns for the option lists of the examples: no
  option (for \<open>h502\<close>, and for any handler); a request limit of 4 bytes; that limit and the caller's error handler; a retry
  predicate.\<close>

definition streamer_default :: "nat Streamer" where
  "streamer_default = New_defaults (New_init h502)"

definition streamer_of :: "nat handler \<Rightarrow> nat Streamer" where
  "streamer_of nh = New_defaults (New_init nh)"

definition streamer_limit4 :: "nat Streamer" where
  "streamer_limit4 = New_defaults ((New_init h502)\<lparr>maxRequestBodyBytes := 4\<rparr>)"

definition streamer_teapot :: "nat Streamer" where
  "streamer_teapot =
     New_defaults ((New_init h502)\<lparr>maxRequestBodyBytes := 4, errHandler := Some (CustomErrHandler teapot)\<rparr>)"

definition streamer_retry :: "nat handler \<Rightarrow> hpredicate \<Rightarrow> nat Streamer" where
  "streamer_retry nh p = New_defaults ((New_init nh)\<lparr>retryPredicate := Some p\<rparr>)"

declare attempt_loop.simps [simp del]

section \<open>Construction\<close>

lemma apply_setters_append:
  "apply_setters (pre @ post) strm =
     (case apply_setters pre strm of Inl err \<Rightarrow> Inl err | Inr strm' \<Rightarrow> apply_setters post strm')"
  by (induction pre arbitrary: strm) (auto split: prod.splits option.splits)

lemma apply_setters_Inl:
  "apply_setters setters strm = Inl err \<Longrightarrow>
     \<exists>pre f post strm'. setters = pre @ f # post \<and> apply_setters pre strm = Inr strm' \<and>
        snd (f strm') = Some err"
proof (induction setters arbitrary: strm)
  case Nil
  then show ?case by simp
next
  case (Cons g gs)
  show ?case
  proof (cases "snd (g strm)")
    case None
    with Cons.prems have "apply_setters gs (fst (g strm)) = Inl err"
      by (auto split: prod.splits)
    from Cons.IH [OF this] obtain pre f post strm' where
      "gs = pre @ f # post" "apply_setters pre (fst (g strm)) = Inr strm'" "snd (f strm') = Some err"
      by blast
    with None have "g # gs = (g # pre) @ f # post \<and> apply_setters (g # pre) strm = Inr strm' \<and>
        snd (f strm') = Some err"
      by (auto split: prod.splits)
    then show ?thesis by blast
  next
    case (Some err')
    with Cons.prems have "err' = err"
      by (auto split: prod.splits)
    with Some have "g # gs = [] @ g # gs \<and> apply_setters [] strm = Inr strm \<and> snd (g strm) = Some err"
      by simp
    then show ?thesis by blast
  qed
qed

text \<open>
  C10. Each of the four size setters returns an error exactly when its argument is
  negative (zero is accepted), and \<^verbatim>\<open>New\<close> returns the error of the first setter that
  fails, and no Streamer: whenever the setters before \<open>f\<close> succeed and \<open>f\<close> fails on the
  Streamer they leave, \<^verbatim>\<open>New\<close> is that error; and \<^verbatim>\<open>New\<close> fails in no other way.
\<close>

theorem size_setters_reject_negative:
  "(snd (MaxRequestBodyBytes m s) \<noteq> None \<longleftrightarrow> m < 0) \<and>
   (snd (MemRequestBodyBytes m s) \<noteq> None \<longleftrightarrow> m < 0) \<and>
   (snd (MaxResponseBodyBytes m s) \<noteq> None \<longleftrightarrow> m < 0) \<and>
   (snd (MemResponseBodyBytes m s) \<noteq> None \<longleftrightarrow> m < 0) \<and>
   (\<forall>pre f post strm err.
      apply_setters pre (New_init next_h) = Inr strm \<and> snd (f strm) = Some err \<longrightarrow>
        New next_h (pre @ f # post) = Inl err) \<and>
   (\<forall>setters err. New next_h setters = Inl err \<longrightarrow>
      (\<exists>pre f post strm. setters = pre @ f # post \<and>
         apply_setters pre (New_init next_h) = Inr strm \<and> snd (f strm) = Some err))"
proof -
  have fwd: "New next_h (pre @ f # post) = Inl err"
    if "apply_setters pre (New_init next_h) = Inr strm" "snd (f strm) = Some err"
    for pre f post strm err
    using that by (auto simp: New_def apply_setters_append split: prod.splits)
  have bwd: "\<exists>pre f post strm. setters = pre @ f # post \<and>
         apply_setters pre (New_init next_h) = Inr strm \<and> snd (f strm) = Some err"
    if "New next_h setters = Inl err" for setters err
  proof -
    from that have "apply_setters setters (New_init next_h) = Inl err"
      by (simp add: New_def split: sum.splits)
    from apply_setters_Inl [OF this] show ?thesis .
  qed
  show ?thesis
    using fwd bwd
    by (simp add: MaxRequestBodyBytes_def MemRequestBodyBytes_def MaxResponseBodyBytes_def
          MemResponseBodyBytes_def)
qed

theorem size_setters_reject_negative_witness:
  "snd (MaxRequestBodyBytes (- 1) (New_init h502)) \<noteq> None \<and>
   snd (MaxRequestBodyBytes 0 (New_init h502)) = None \<and>
   snd (MemResponseBodyBytes (- 5) (New_init h502)) \<noteq> None \<and>
   New h502 [MaxRequestBodyBytes 10, MemRequestBodyBytes (- 2), MaxResponseBodyBytes (- 3)]
     = Inl (Errorf ''mem bytes should be >= 0 got %d'' (- 2))"
proof -
  have pre: "apply_setters [MaxRequestBodyBytes 10] (New_init h502)
      = Inr ((New_init h502)\<lparr>maxRequestBodyBytes := 10\<rparr>)"
    by (simp add: MaxRequestBodyBytes_def)
  have f: "snd (MemRequestBodyBytes (- 2) ((New_init h502)\<lparr>maxRequestBodyBytes := 10\<rparr>))
      = Some (Errorf ''mem bytes should be >= 0 got %d'' (- 2))"
    by (simp add: MemRequestBodyBytes_def)
  note neg1 = size_setters_reject_negative [of "- 1" "New_init h502" h502]
  note zero = size_setters_reject_negative [of 0 "New_init h502" h502]
  note neg5 = size_setters_reject_negative [of "- 5" "New_init h502" h502]
  from neg1 have a: "snd (MaxRequestBodyBytes (- 1) (New_init h502)) \<noteq> None"
    by simp
  from zero have b: "snd (MaxRequestBodyBytes 0 (New_init h502)) = None"
    by simp
  from neg5 have c: "snd (MemResponseBodyBytes (- 5) (New_init h502)) \<noteq> None"
    by simp
  from neg1 pre f
  have "New h502 ([MaxRequestBodyBytes 10] @ MemRequestBodyBytes (- 2) # [MaxResponseBodyBytes (- 3)])
      = Inl (Errorf ''mem bytes should be >= 0 got %d'' (- 2))"
    by blast
  with a b c show ?thesis
    by simp
qed

section \<open>Traces and the loop\<close>

lemma next_calls_append [simp]: "next_calls (xs @ ys) = next_calls xs @ next_calls ys"
  by (simp add: next_calls_def)

lemma next_calls_Nil [simp]: "next_calls [] = []"
  by (simp add: next_calls_def)

lemma next_calls_Cons [simp]:
  "next_calls (ev # tr) =
     (case ev of EvNext n r mb ops \<Rightarrow> [(n, r, mb, ops)] | _ \<Rightarrow> []) @ next_calls tr"
  by (cases ev) (simp_all add: next_calls_def)

lemma next_calls_closes [simp]: "next_calls (map EvClose rs) = []"
  by (induction rs) simp_all

lemma trace_emit [simp]: "st_trace (emit ev \<sigma>) = st_trace \<sigma> @ [ev]"
  by (simp add: emit_def)

lemma trace_fold_close:
  "st_trace (fold (\<lambda>r. emit (EvClose r)) rs \<sigma>) = st_trace \<sigma> @ map EvClose rs"
  by (induction rs arbitrary: \<sigma>) simp_all

lemma trace_run_defers: "st_trace (run_defers \<sigma>) = st_trace \<sigma> @ map EvClose (st_defers \<sigma>)"
  by (simp add: run_defers_def trace_fold_close)

lemma w_fold_close: "st_w (fold (\<lambda>r. emit (EvClose r)) rs \<sigma>) = st_w \<sigma>"
  by (induction rs arbitrary: \<sigma>) (simp_all add: emit_def)

lemma w_run_defers [simp]: "st_w (run_defers \<sigma>) = st_w \<sigma>"
  by (simp add: run_defers_def w_fold_close)

lemmas body_defs = attempt_body_def Let_def multibuf_NewWriterOnce_def next_ServeHTTP_def s_log_def
  writerOnce_Reader_def body_Seek_def s_errHandler_def finalize_def emit_def go_defer_def panic_def

lemmas body_splits = sum.splits option.splits prod.splits if_splits

lemma attempt_loop_Inl:
  "attempt_body s e req t outreq n \<sigma> = Inl \<sigma>' \<Longrightarrow> attempt_loop s e req t outreq n \<sigma> = \<sigma>'"
  by (simp add: attempt_loop.simps)

lemma attempt_loop_Inr:
  "attempt_body s e req t outreq n \<sigma> = Inr (outreq', n', \<sigma>') \<Longrightarrow>
     attempt_loop s e req t outreq n \<sigma> = attempt_loop s e req t outreq' n' \<sigma>'"
  by (simp add: attempt_loop.simps [of s e req t outreq n \<sigma>])

lemma attempt_loop_induct [case_names step]:
  assumes "\<And>s e req t outreq n \<sigma>.
     (\<And>outreq' n' \<sigma>'. attempt_body s e req t outreq n \<sigma> = Inr (outreq', n', \<sigma>')
         \<Longrightarrow> P s e req t outreq' n' \<sigma>')
       \<Longrightarrow> P s e req t outreq n \<sigma>"
  shows "P s e req t outreq n \<sigma>"
proof (induction s e req t outreq n \<sigma> rule: attempt_loop.induct)
  case (1 s e req t outreq n \<sigma>)
  show ?case
    by (rule assms) (rule "1.IH" [OF _ refl refl], assumption)
qed

section \<open>Runs on the example inputs\<close>

lemma canonical_examples:
  "CanonicalMIMEHeaderKey ''X-Attempt'' = ''X-Attempt''"
  "CanonicalMIMEHeaderKey ''X-A'' = ''X-A''"
  "CanonicalMIMEHeaderKey ''x-a'' = ''X-A''"
  by (simp_all add: CanonicalMIMEHeaderKey_def validHeaderFieldByte_def toUpper_def toLower_def
        lower_letters_def upper_letters_def)

lemmas example_defs = streamer_default_def streamer_of_def streamer_limit4_def streamer_teapot_def
  streamer_retry_def
  New_defaults_def New_init_def pkg_errHandler_def DefaultMaxBodyBytes_def DefaultMemBodyBytes_def
  env0_def req0_def req5_def w0_def h502_def h200_def h_silent_def h_hello_def h_lower_def
  pred_attempts2_502_def pred_502_def pred_attempts2_200_def teapot_def

lemmas eval_defs = ServeHTTP_def run_defers_def ServeHTTP_body_def checkLimit_def multibuf_New_def
  multiReader_Size_def copyRequest_def utils_CopyURL_def utils_CopyHeaders_def attempt_loop.simps
  attempt_body_def Let_def multibuf_NewWriterOnce_def next_ServeHTTP_def s_log_def
  writerOnce_Reader_def body_Seek_def s_errHandler_def finalize_def deliver_def emit_def go_defer_def
  panic_def retry_ctx_def DefaultMaxRetryAttempts_def start_def rw_WriteHeader_def rw_Write_def io_Copy_def
  bufferWriter_WriteHeader_def bufferWriter_Write_def bufferWriter_Header_def writerOnce_Write_def
  multiReader_rest_def multiReader_Read_def header_Set_def header_Add_def header_Del_def
  header_at_def copyHeaders_def ErrorHandler_ServeHTTP_def SizeErrHandler_ServeHTTP_def
  StatusText_def StatusRequestEntityTooLarge_def canonical_examples

lemma New_examples:
  "New h502 [] = Inr streamer_default"
  "New h502 [MaxRequestBodyBytes 4] = Inr streamer_limit4"
  "New h502 [MaxRequestBodyBytes 4, ErrorHandler (Some (CustomErrHandler teapot))] = Inr streamer_teapot"
  "New h502 [Retry parse0 ''ResponseCode() == 502''] = Inr (streamer_retry h502 pred_502)"
  "New h502 [Retry parse0 ''Attempts() <= 2 && ResponseCode() == 502'']
     = Inr (streamer_retry h502 pred_attempts2_502)"
  "New h_silent [Retry parse0 ''Attempts() <= 2 && ResponseCode() == 200'']
     = Inr (streamer_retry h_silent pred_attempts2_200)"
  by (simp_all add: New_def MaxRequestBodyBytes_def ErrorHandler_def Retry_def parse0_def
        streamer_default_def streamer_limit4_def streamer_teapot_def streamer_retry_def New_init_def)

lemma New_no_options: "New nh [] = Inr (streamer_of nh)"
  by (simp add: New_def streamer_of_def)

section \<open>The attempt ceiling\<close>

lemma body_calls_Inl:
  "attempt_body s e req t outreq n \<sigma> = Inl \<sigma>' \<Longrightarrow>
     length (next_calls (st_trace \<sigma>')) \<le> length (next_calls (st_trace \<sigma>)) + 1"
  by (auto simp: body_defs split: body_splits)

lemma body_calls_Inr:
  "attempt_body s e req t outreq n \<sigma> = Inr (outreq', n', \<sigma>') \<Longrightarrow>
     length (next_calls (st_trace \<sigma>')) = length (next_calls (st_trace \<sigma>)) + 1 \<and> n' = n + 1 \<and> n \<le> 10"
  by (auto simp: body_defs DefaultMaxRetryAttempts_def split: body_splits)

lemma loop_bound:
  "length (next_calls (st_trace (attempt_loop s e req t outreq n \<sigma>)))
     \<le> length (next_calls (st_trace \<sigma>)) + nat (max 1 (12 - n))"
proof (induction s e req t outreq n \<sigma> rule: attempt_loop_induct)
  case (step s e req t outreq n \<sigma>)
  show ?case
  proof (cases "attempt_body s e req t outreq n \<sigma>")
    case (Inl \<sigma>')
    then show ?thesis
      using body_calls_Inl [OF Inl] by (simp add: attempt_loop_Inl)
  next
    case (Inr r)
    then obtain outreq' n' \<sigma>' where body: "attempt_body s e req t outreq n \<sigma> = Inr (outreq', n', \<sigma>')"
      by (cases r) auto
    from body_calls_Inr [OF body] have n: "n' = n + 1" "n \<le> 10"
      and len: "length (next_calls (st_trace \<sigma>')) = length (next_calls (st_trace \<sigma>)) + 1"
      by simp_all
    from n have "nat (max 1 (12 - n)) = Suc (nat (max 1 (12 - n')))"
      by simp
    with step [OF body] len show ?thesis
      by (simp add: attempt_loop_Inr [OF body])
  qed
qed

lemma body_bound:
  "length (next_calls (st_trace (ServeHTTP_body s e req \<sigma>))) \<le> length (next_calls (st_trace \<sigma>)) + 11"
proof -
  have "length (next_calls (st_trace (attempt_loop s e req t outreq 1 \<sigma>1)))
      \<le> length (next_calls (st_trace \<sigma>1)) + 11" for t outreq and \<sigma>1 :: "('a, 'b) state_scheme"
    using loop_bound [of s e req t outreq 1 \<sigma>1] by simp
  note loop = this
  show ?thesis
    unfolding ServeHTTP_body_def
    apply (simp split: body_splits add: s_log_def s_errHandler_def panic_def)
    apply (intro conjI impI allI)
    apply (auto intro: le_trans [OF loop] simp: go_defer_def emit_def)
    done
qed

text \<open>
  C1, as the code has it. For every request the wrapped handler is invoked at most eleven
  times, whatever the retry predicate answers: the first attempt and at most
  \<open>DefaultMaxRetryAttempts = 10\<close> retries. The guard \<^verbatim>\<open>attempt > DefaultMaxRetryAttempts\<close>
  still consults the predicate after the tenth attempt.
\<close>

theorem attempts_at_most_eleven:
  "length (next_calls (st_trace (ServeHTTP s e req \<sigma>))) \<le> length (next_calls (st_trace \<sigma>)) + 11"
  using body_bound [of s e req \<sigma>] by (simp add: ServeHTTP_def trace_run_defers)

text \<open>
  C1 as stated fails: with the retry expression \<^verbatim>\<open>ResponseCode() == 502\<close> and a handler
  that always answers 502, the handler is invoked eleven times for one request.
\<close>

theorem eleven_attempts_counterexample:
  "New h502 [Retry parse0 ''ResponseCode() == 502''] = Inr (streamer_retry h502 pred_502) \<and>
   length (next_calls (st_trace (ServeHTTP (streamer_retry h502 pred_502) env0 req0 (start w0 0)))) = 11 \<and>
   \<not> length (next_calls (st_trace (ServeHTTP (streamer_retry h502 pred_502) env0 req0 (start w0 0))))
       \<le> nat DefaultMaxRetryAttempts"
proof -
  have "length (next_calls (st_trace (ServeHTTP (streamer_retry h502 pred_502) env0 req0 (start w0 0)))) = 11"
    by (simp add: eval_defs example_defs)
  then show ?thesis
    by (simp add: New_examples DefaultMaxRetryAttempts_def)
qed

section \<open>Wrap, and what the methods leave of the configuration\<close>












section \<open>Requests over the limit\<close>

text \<open>
  C3, as the code has it. When a positive \<^verbatim>\<open>maxRequestBodyBytes\<close> is configured and the
  declared content length exceeds it, \<^verbatim>\<open>ServeHTTP\<close> neither invokes the wrapped handler nor
  hands the request body to the buffer (no byte of it is read), whatever the error
  handler is. On a constructed Streamer it logs and calls the configured error handler
  once, with the size error. With the default handler \<^verbatim>\<open>SizeErrHandler\<close> the response is
  status 413 with the standard reason phrase as the body.
\<close>

theorem over_limit_rejected:
  assumes "0 < maxRequestBodyBytes s" and "maxRequestBodyBytes s < ContentLength req"
  shows "next_calls (st_trace (ServeHTTP s e req (start w h))) = [] \<and>
         EvNew \<notin> set (st_trace (ServeHTTP s e req (start w h))) \<and>
         st_next (ServeHTTP s e req (start w h)) = h \<and>
         (\<forall>l eh. log s = Some l \<and> errHandler s = Some eh \<longrightarrow>
            st_trace (ServeHTTP s e req (start w h)) =
              [EvLog LInfo ''request body over limit: %v'',
               EvErrHandler (Some (MaxSizeReachedError (maxRequestBodyBytes s)))] \<and>
            st_w (ServeHTTP s e req (start w h)) =
              ErrorHandler_ServeHTTP e eh w req (Some (MaxSizeReachedError (maxRequestBodyBytes s)))) \<and>
         (\<forall>l. log s = Some l \<and> errHandler s = Some SizeErrHandler \<longrightarrow>
            st_w (ServeHTTP s e req (start w h)) =
              w\<lparr>rw_codes := rw_codes w @ [413], rw_body := rw_body w @ ''Request Entity Too Large''\<rparr>)"
  using assms
  by (auto simp: ServeHTTP_def run_defers_def ServeHTTP_body_def checkLimit_def s_log_def
        s_errHandler_def emit_def panic_def start_def ErrorHandler_ServeHTTP_def
        SizeErrHandler_ServeHTTP_def rw_Write_def rw_WriteHeader_def StatusText_def
        StatusRequestEntityTooLarge_def
      split: option.splits)

theorem over_limit_rejected_witness:
  "New h502 [MaxRequestBodyBytes 4] = Inr streamer_limit4 \<and>
   (0::int) < 4 \<and> (4::int) < ContentLength req5 \<and>
   next_calls (st_trace (ServeHTTP streamer_limit4 env0 req5 (start w0 0))) = [] \<and>
   EvNew \<notin> set (st_trace (ServeHTTP streamer_limit4 env0 req5 (start w0 0))) \<and>
   st_w (ServeHTTP streamer_limit4 env0 req5 (start w0 0)) =
     \<lparr>rw_header = [], rw_codes = [413], rw_body = ''Request Entity Too Large''\<rparr>"
proof -
  have m: "maxRequestBodyBytes streamer_limit4 = 4" "log streamer_limit4 = Some NullLogger"
    "errHandler streamer_limit4 = Some SizeErrHandler"
    by (simp_all add: example_defs)
  have a: "0 < maxRequestBodyBytes streamer_limit4"
    and b: "maxRequestBodyBytes streamer_limit4 < ContentLength req5"
    by (simp_all add: m req5_def)
  note inst = over_limit_rejected [OF a b, of env0 w0 0]
  from inst have c: "next_calls (st_trace (ServeHTTP streamer_limit4 env0 req5 (start w0 0))) = []"
    and d: "EvNew \<notin> set (st_trace (ServeHTTP streamer_limit4 env0 req5 (start w0 0)))"
    by blast+
  from inst m have "st_w (ServeHTTP streamer_limit4 env0 req5 (start w0 0)) =
      w0\<lparr>rw_codes := rw_codes w0 @ [413], rw_body := rw_body w0 @ ''Request Entity Too Large''\<rparr>"
    by blast
  with c d show ?thesis
    by (simp add: New_examples w0_def req5_def)
qed

text \<open>
  C3 as stated fails: a Streamer configured with an error handler of the caller's
  answers the oversized request as that handler decides, here with 418 and no body.
\<close>

theorem over_limit_custom_handler_counterexample:
  "New h502 [MaxRequestBodyBytes 4, ErrorHandler (Some (CustomErrHandler teapot))] = Inr streamer_teapot \<and>
   0 < maxRequestBodyBytes streamer_teapot \<and>
   maxRequestBodyBytes streamer_teapot < ContentLength req5 \<and>
   rw_codes (st_w (ServeHTTP streamer_teapot env0 req5 (start w0 0))) = [418] \<and>
   rw_body (st_w (ServeHTTP streamer_teapot env0 req5 (start w0 0))) = []"
  by (simp add: New_examples) (simp add: eval_defs example_defs)

section \<open>The outbound request and the shared buffer\<close>

lemma body_call_Inl:
  "attempt_body s e req t outreq n \<sigma> = Inl \<sigma>' \<Longrightarrow>
     \<exists>ops. next_calls (st_trace \<sigma>') = next_calls (st_trace \<sigma>) \<or>
           next_calls (st_trace \<sigma>') = next_calls (st_trace \<sigma>) @ [(n, outreq, st_body \<sigma>, ops)]"
  by (auto simp: body_defs split: body_splits)

lemma body_call_Inr:
  "attempt_body s e req t outreq n \<sigma> = Inr (outreq', n', \<sigma>') \<Longrightarrow>
     (\<exists>ops. next_calls (st_trace \<sigma>') = next_calls (st_trace \<sigma>) @ [(n, outreq, st_body \<sigma>, ops)]) \<and>
     outreq' = copyRequest s req Multibuf t \<and>
     st_body \<sigma>' = map_option (\<lambda>mr. mr\<lparr>mr_pos := 0\<rparr>) (st_body \<sigma>)"
  by (auto simp: body_defs multiReader_Read_def option.map_comp comp_def split: body_splits)

lemma loop_same_call:
  assumes "st_body \<sigma> = Some \<lparr>mr_data = d, mr_pos = 0\<rparr>"
    and "outreq = copyRequest s req Multibuf t"
    and "list_all (same_call (copyRequest s req Multibuf t) d) (next_calls (st_trace \<sigma>))"
  shows "list_all (same_call (copyRequest s req Multibuf t) d)
           (next_calls (st_trace (attempt_loop s e req t outreq n \<sigma>)))"
  using assms
proof (induction s e req t outreq n \<sigma> rule: attempt_loop_induct)
  case (step s e req t outreq n \<sigma>)
  show ?case
  proof (cases "attempt_body s e req t outreq n \<sigma>")
    case (Inl \<sigma>')
    from body_call_Inl [OF Inl] step.prems show ?thesis
      unfolding attempt_loop_Inl [OF Inl] by (auto simp: same_call_def)
  next
    case (Inr r)
    then obtain outreq' n' \<sigma>' where body: "attempt_body s e req t outreq n \<sigma> = Inr (outreq', n', \<sigma>')"
      by (cases r) auto
    from body_call_Inr [OF body] obtain ops where
      calls: "next_calls (st_trace \<sigma>') = next_calls (st_trace \<sigma>) @ [(n, outreq, st_body \<sigma>, ops)]"
      and outreq': "outreq' = copyRequest s req Multibuf t"
      and rewound: "st_body \<sigma>' = map_option (\<lambda>mr. mr\<lparr>mr_pos := 0\<rparr>) (st_body \<sigma>)"
      by blast
    from rewound step.prems(1) have "st_body \<sigma>' = Some \<lparr>mr_data = d, mr_pos = 0\<rparr>"
      by simp
    moreover note outreq'
    moreover from calls step.prems
    have "list_all (same_call (copyRequest s req Multibuf t) d) (next_calls (st_trace \<sigma>'))"
      by (simp add: same_call_def)
    ultimately show ?thesis
      unfolding attempt_loop_Inr [OF body] by (rule step.IH [OF body])
  qed
qed

lemma serve_same_call:
  "list_all (same_call (copyRequest s req Multibuf (int (length (Body req)))) (Body req))
     (next_calls (st_trace (ServeHTTP s e req (start w h))))"
proof -
  have loop: "list_all (same_call (copyRequest s req Multibuf (int (length (Body req)))) (Body req))
     (next_calls (st_trace (attempt_loop s e req (int (length (Body req)))
        (copyRequest s req Multibuf (int (length (Body req)))) 1
        (go_defer RBody ((emit EvNew (start w h))\<lparr>st_body := Some \<lparr>mr_data = Body req, mr_pos = 0\<rparr>\<rparr>)))))"
    by (rule loop_same_call) (simp_all add: go_defer_def emit_def start_def)
  show ?thesis
    unfolding ServeHTTP_def trace_run_defers ServeHTTP_body_def
    using loop
    by (auto simp: checkLimit_def multibuf_New_def multiReader_Size_def s_log_def s_errHandler_def
          panic_def start_def emit_def go_defer_def
        split: body_splits new_fault.splits)
qed

lemma run_502_attempts:
  "map fst (next_calls (st_trace
      (ServeHTTP (streamer_retry h502 pred_attempts2_502) env0 req0 (start w0 0)))) = [1, 2, 3]"
  by (simp add: eval_defs example_defs)



text \<open>
  C4. Every outbound request passed to the wrapped handler, on every attempt, is
  dispatched over a buffer that holds the whole inbound body, carries a
  \<^verbatim>\<open>ContentLength\<close> equal to the number of bytes in that buffer and an empty
  \<^verbatim>\<open>TransferEncoding\<close>, whatever length or framing the inbound request declared.
\<close>

theorem outbound_content_length:
  "\<forall>(n, outreq, mb, ops) \<in> set (next_calls (st_trace (ServeHTTP s e req (start w h)))).
      (\<exists>mr. mb = Some mr \<and> mr_data mr = Body req \<and>
            ContentLength outreq = int (length (mr_data mr))) \<and>
      TransferEncoding outreq = []"
  using serve_same_call [of s req e w h]
  by (auto simp: list_all_iff same_call_def copyRequest_def)

theorem outbound_content_length_witness:
  "ContentLength req0 = - 1 \<and> TransferEncoding req0 = [''chunked''] \<and>
   map fst (next_calls (st_trace
      (ServeHTTP (streamer_retry h502 pred_attempts2_502) env0 req0 (start w0 0)))) = [1, 2, 3] \<and>
   list_all (\<lambda>(n, outreq, mb, ops). ContentLength outreq = 5 \<and> TransferEncoding outreq = [])
     (next_calls (st_trace
        (ServeHTTP (streamer_retry h502 pred_attempts2_502) env0 req0 (start w0 0))))"
proof -
  have len: "int (length (Body req0)) = 5"
    by (simp add: req0_def)
  from outbound_content_length [of "streamer_retry h502 pred_attempts2_502" env0 req0 w0 0]
  have "list_all (\<lambda>(n, outreq, mb, ops). ContentLength outreq = 5 \<and> TransferEncoding outreq = [])
     (next_calls (st_trace
        (ServeHTTP (streamer_retry h502 pred_attempts2_502) env0 req0 (start w0 0))))"
    unfolding list_all_iff using len by fastforce
  moreover have "ContentLength req0 = - 1 \<and> TransferEncoding req0 = [''chunked'']"
    by (simp add: req0_def)
  ultimately show ?thesis
    using run_502_attempts by simp
qed

section \<open>Delivery\<close>

lemma predicate_calls_append [simp]:
  "predicate_calls (xs @ ys) = predicate_calls xs @ predicate_calls ys"
  by (simp add: predicate_calls_def)

lemma predicate_calls_Nil [simp]: "predicate_calls [] = []"
  by (simp add: predicate_calls_def)

lemma predicate_calls_Cons [simp]:
  "predicate_calls (ev # tr) = (case ev of EvPredicate c \<Rightarrow> [c] | _ \<Rightarrow> []) @ predicate_calls tr"
  by (cases ev) (simp_all add: predicate_calls_def)

lemma predicate_calls_closes [simp]: "predicate_calls (map EvClose rs) = []"
  by (induction rs) simp_all

lemma copies_append [simp]: "copies (xs @ ys) = copies xs @ copies ys"
  by (simp add: copies_def)

lemma copies_Nil [simp]: "copies [] = []"
  by (simp add: copies_def)

lemma copies_Cons [simp]:
  "copies (ev # tr) = (case ev of EvCopy n \<Rightarrow> [n] | _ \<Rightarrow> []) @ copies tr"
  by (cases ev) (simp_all add: copies_def)

lemma copies_closes [simp]: "copies (map EvClose rs) = []"
  by (induction rs) simp_all

lemma last_ops_snoc: "next_calls tr = cs @ [(n, r, mb, ops)] \<Longrightarrow> last_ops tr = ops"
  by (simp add: last_ops_def)

lemma last_ops_closes [simp]: "last_ops (tr @ map EvClose rs) = last_ops tr"
  by (simp add: last_ops_def)

lemma bw_code_fold: "bw_code (fold apply_op ops b) = fold status_step ops (bw_code b)"
proof (induction ops arbitrary: b)
  case Nil
  show ?case by simp
next
  case (Cons op ops)
  show ?case
    by (cases op)
       (simp_all add: Cons.IH bufferWriter_WriteHeader_def bufferWriter_Write_def)
qed

lemma bw_header_fold: "bw_header (fold apply_op ops b) = fold header_step ops (bw_header b)"
proof (induction ops arbitrary: b)
  case Nil
  show ?case by simp
next
  case (Cons op ops)
  show ?case
    by (cases op)
       (simp_all add: Cons.IH bufferWriter_WriteHeader_def bufferWriter_Write_def
          bufferWriter_Header_def)
qed

lemma bw_code_captured: "bw_code (captured s ops) = status_of ops"
  by (simp add: captured_def status_of_def bw_code_fold)

lemma bw_header_captured: "bw_header (captured s ops) = response_header ops"
  by (simp add: captured_def response_header_def bw_header_fold)

lemma body_outcome_Inl:
  "attempt_body s e req t outreq n \<sigma> = Inl \<sigma>' \<Longrightarrow>
     (\<exists>ops. next_calls (st_trace \<sigma>') = next_calls (st_trace \<sigma>) @ [(n, outreq, st_body \<sigma>, ops)] \<and>
        copies (st_trace \<sigma>') = copies (st_trace \<sigma>) @ [n] \<and>
        st_w \<sigma>' = deliver e (captured s ops) (wo_data (bw_buffer (captured s ops))) (st_w \<sigma>)) \<or>
     (copies (st_trace \<sigma>') = copies (st_trace \<sigma>) \<and>
        (st_w \<sigma>' = st_w \<sigma> \<or>
         (\<exists>eh err. errHandler s = Some eh \<and>
            st_w \<sigma>' = ErrorHandler_ServeHTTP e eh (st_w \<sigma>) req err)))"
  by (auto simp: body_defs captured_def split: body_splits)

lemma body_outcome_Inr:
  "attempt_body s e req t outreq n \<sigma> = Inr (outreq', n', \<sigma>') \<Longrightarrow>
     copies (st_trace \<sigma>') = copies (st_trace \<sigma>) \<and> st_w \<sigma>' = st_w \<sigma>"
  by (auto simp: body_defs split: body_splits)

lemma loop_outcome: "outcome s e req \<sigma> (attempt_loop s e req t outreq n \<sigma>)"
proof (induction s e req t outreq n \<sigma> rule: attempt_loop_induct)
  case (step s e req t outreq n \<sigma>)
  show ?case
  proof (cases "attempt_body s e req t outreq n \<sigma>")
    case (Inl \<sigma>')
    from body_outcome_Inl [OF Inl] show ?thesis
      unfolding attempt_loop_Inl [OF Inl] outcome_def
      by (auto simp: last_ops_snoc)
  next
    case (Inr r)
    then obtain outreq' n' \<sigma>' where body: "attempt_body s e req t outreq n \<sigma> = Inr (outreq', n', \<sigma>')"
      by (cases r) auto
    from body_outcome_Inr [OF body] step [OF body] show ?thesis
      unfolding attempt_loop_Inr [OF body] outcome_def by simp
  qed
qed

lemma emit_fields [simp]:
  "st_w (emit ev \<sigma>) = st_w \<sigma>" "st_body (emit ev \<sigma>) = st_body \<sigma>"
  "st_next (emit ev \<sigma>) = st_next \<sigma>" "st_defers (emit ev \<sigma>) = st_defers \<sigma>"
  by (simp_all add: emit_def)

lemma go_defer_fields [simp]:
  "st_w (go_defer r \<sigma>) = st_w \<sigma>" "st_body (go_defer r \<sigma>) = st_body \<sigma>"
  "st_next (go_defer r \<sigma>) = st_next \<sigma>" "st_trace (go_defer r \<sigma>) = st_trace \<sigma>"
  "st_defers (go_defer r \<sigma>) = r # st_defers \<sigma>"
  by (simp_all add: go_defer_def)

lemma start_fields [simp]:
  "st_w (start w h) = w" "st_body (start w h) = None" "st_next (start w h) = h"
  "st_trace (start w h) = []" "st_defers (start w h) = []"
  by (simp_all add: start_def)

lemma s_log_Inl:
  "s_log s lvl fmt \<sigma> = Inl \<sigma>' \<Longrightarrow> \<sigma>' = emit EvPanic \<sigma> \<and> log s = None"
  by (auto simp: s_log_def panic_def split: option.splits)

lemma s_log_Inr:
  "s_log s lvl fmt \<sigma> = Inr \<sigma>' \<Longrightarrow> \<sigma>' = emit (EvLog lvl fmt) \<sigma> \<and> log s \<noteq> None"
  by (auto simp: s_log_def split: option.splits)

lemma outcome_same:
  "st_w \<sigma>' = st_w \<sigma> \<Longrightarrow> copies (st_trace \<sigma>') = copies (st_trace \<sigma>) \<Longrightarrow> outcome s e req \<sigma> \<sigma>'"
  by (simp add: outcome_def)

lemma outcome_errHandler:
  "st_w \<sigma>1 = st_w \<sigma> \<Longrightarrow> copies (st_trace \<sigma>1) = copies (st_trace \<sigma>) \<Longrightarrow>
     outcome s e req \<sigma> (s_errHandler s e req err \<sigma>1)"
  by (auto simp: outcome_def s_errHandler_def panic_def split: option.splits)

lemma outcome_from:
  "outcome s e req \<sigma>1 \<sigma>' \<Longrightarrow> st_w \<sigma>1 = st_w \<sigma> \<Longrightarrow> copies (st_trace \<sigma>1) = copies (st_trace \<sigma>) \<Longrightarrow>
     outcome s e req \<sigma> \<sigma>'"
  by (simp add: outcome_def)

lemma serve_body_outcome: "outcome s e req (start w h) (ServeHTTP_body s e req (start w h))"
proof (cases "checkLimit s req")
  case (Some err)
  then show ?thesis
    by (auto simp: ServeHTTP_body_def split: sum.splits dest!: s_log_Inl s_log_Inr
          intro!: outcome_same outcome_errHandler)
next
  case None
  note limit = None
  obtain body err where new:
    "multibuf_New e (Body req) (maxRequestBodyBytes s) (memRequestBodyBytes s) = (body, err)"
    by (cases "multibuf_New e (Body req) (maxRequestBodyBytes s) (memRequestBodyBytes s)")
  show ?thesis
  proof (cases "\<exists>mr. body = Some mr \<and> err = None")
    case False
    with limit new show ?thesis
      by (auto simp: ServeHTTP_body_def split: option.splits intro!: outcome_errHandler)
  next
    case True
    then obtain mr where mr: "body = Some mr" "err = None"
      by blast
    show ?thesis
    proof (cases "multiReader_Size e mr")
      case (Inl err')
      with limit new mr show ?thesis
        by (auto simp: ServeHTTP_body_def split: sum.splits dest!: s_log_Inl s_log_Inr
              intro!: outcome_same outcome_errHandler)
    next
      case (Inr t)
      have "outcome s e req (start w h)
              (attempt_loop s e req t (copyRequest s req Multibuf t) 1
                 (go_defer RBody ((emit EvNew (start w h))\<lparr>st_body := Some mr\<rparr>)))"
        by (rule outcome_from [OF loop_outcome]) simp_all
      with limit new mr Inr show ?thesis
        by (simp add: ServeHTTP_body_def)
    qed
  qed
qed

lemma serve_outcome: "outcome s e req (start w h) (ServeHTTP s e req (start w h))"
  using serve_body_outcome [of s e req w h]
  by (simp add: ServeHTTP_def outcome_def trace_run_defers)

section \<open>Headers\<close>

lemma header_at_Add:
  "header_at (header_Add k v hs) k' =
     (if k' = CanonicalMIMEHeaderKey k then header_at hs k' @ [v] else header_at hs k')"
  by (simp add: header_Add_def header_at_def update_conv')

lemma header_at_fold_Add:
  "header_at (fold (header_Add k) vv hs) k' =
     (if k' = CanonicalMIMEHeaderKey k then header_at hs k' @ vv else header_at hs k')"
  by (induction vv arbitrary: hs) (simp_all add: header_at_Add)

lemma header_at_absent: "k \<notin> fst ` set hs \<Longrightarrow> header_at hs k = []"
  by (simp add: header_at_def map_of_eq_None_iff [THEN iffD2])

lemma header_at_fold_entries:
  "header_at (fold (\<lambda>(k, vv) d. fold (header_Add k) vv d) src dst) K =
     header_at dst K @ values_under src K"
proof (induction src arbitrary: dst)
  case Nil
  show ?case by (simp add: values_under_def)
next
  case (Cons kv src)
  obtain k1 vv1 where kv: "kv = (k1, vv1)"
    by (cases kv)
  have here: "values_under (kv # src) K =
      (if CanonicalMIMEHeaderKey k1 = K then vv1 else []) @ values_under src K"
    by (simp add: values_under_def kv)
  show ?case
    unfolding here by (auto simp: kv Cons.IH header_at_fold_Add)
qed

lemma copyHeaders_at:
  "header_at (copyHeaders e dst src) K = header_at dst K @ values_under (range_order e src) K"
  by (simp add: copyHeaders_def header_at_fold_entries)

lemma values_under_canonical:
  "canonical_keys hs \<Longrightarrow> distinct (map fst hs) \<Longrightarrow> values_under hs K = header_at hs K"
proof (induction hs)
  case Nil
  show ?case by (simp add: values_under_def header_at_def)
next
  case (Cons kv hs)
  obtain k1 vv1 where kv: "kv = (k1, vv1)"
    by (cases kv)
  from Cons.prems kv have canon: "CanonicalMIMEHeaderKey k1 = k1" and rest: "canonical_keys hs"
    and absent: "k1 \<notin> fst ` set hs" and dist: "distinct (map fst hs)"
    by (auto simp: canonical_keys_def)
  have "values_under (kv # hs) K = (if k1 = K then vv1 else []) @ values_under hs K"
    by (simp add: values_under_def kv canon)
  moreover have "header_at (kv # hs) K = (if k1 = K then vv1 else header_at hs K)"
    by (auto simp: header_at_def kv)
  ultimately show ?case
    using Cons.IH [OF rest dist] header_at_absent [OF absent] by auto
qed

lemma range_order_map:
  assumes "visits_every_entry e" and "distinct (map fst hs)"
  shows "distinct (map fst (range_order e hs))" and "set (range_order e hs) = set hs"
    and "header_at (range_order e hs) K = header_at hs K"
proof -
  from assms(1) have m: "mset (range_order e hs) = mset hs"
    by (simp add: visits_every_entry_def)
  then have "mset (map fst (range_order e hs)) = mset (map fst hs)"
    by (metis mset_map)
  with assms(2) show d: "distinct (map fst (range_order e hs))"
    by (metis mset_eq_imp_distinct_iff)
  from m show s: "set (range_order e hs) = set hs"
    by (rule mset_eq_setD)
  from d assms(2) s have "map_of (range_order e hs) = map_of hs"
    by (simp add: map_of_inject_set)
  then show "header_at (range_order e hs) K = header_at hs K"
    by (simp add: header_at_def)
qed

lemma canonical_keys_range:
  "visits_every_entry e \<Longrightarrow> canonical_keys hs \<Longrightarrow> canonical_keys (range_order e hs)"
  unfolding canonical_keys_def list_all_iff visits_every_entry_def
  by (metis mset_eq_setD)

lemma values_under_single:
  assumes "distinct (map fst hs)" and "(k, vv) \<in> set hs"
    and "\<forall>k' \<in> fst ` set hs. CanonicalMIMEHeaderKey k' = CanonicalMIMEHeaderKey k \<longrightarrow> k' = k"
  shows "values_under hs (CanonicalMIMEHeaderKey k) = vv"
  using assms
proof (induction hs)
  case Nil
  then show ?case by simp
next
  case (Cons kv hs)
  obtain k1 vv1 where kv: "kv = (k1, vv1)"
    by (cases kv)
  from Cons.prems(1) kv have absent: "k1 \<notin> fst ` set hs" and dist: "distinct (map fst hs)"
    by auto
  have here: "values_under (kv # hs) (CanonicalMIMEHeaderKey k) =
      (if CanonicalMIMEHeaderKey k1 = CanonicalMIMEHeaderKey k then vv1 else []) @
      values_under hs (CanonicalMIMEHeaderKey k)"
    by (simp add: values_under_def kv)
  show ?case
  proof (cases "k1 = k")
    case True
    with Cons.prems(2) kv absent have vv: "vv1 = vv"
      by (auto simp: image_iff)
    from True absent Cons.prems(3)
    have "filter (\<lambda>(k', vv'). CanonicalMIMEHeaderKey k' = CanonicalMIMEHeaderKey k) hs = []"
      by (auto simp: filter_empty_conv image_iff) force
    then have "values_under hs (CanonicalMIMEHeaderKey k) = []"
      by (simp add: values_under_def)
    with True vv show ?thesis
      unfolding here by simp
  next
    case False
    with Cons.prems(2) kv have mem: "(k, vv) \<in> set hs"
      by auto
    from Cons.prems(3) have inj: "\<forall>k' \<in> fst ` set hs.
        CanonicalMIMEHeaderKey k' = CanonicalMIMEHeaderKey k \<longrightarrow> k' = k"
      by auto
    from False Cons.prems(3) kv have "CanonicalMIMEHeaderKey k1 \<noteq> CanonicalMIMEHeaderKey k"
      by auto
    with Cons.IH [OF dist mem inj] show ?thesis
      unfolding here by simp
  qed
qed

lemmas letter_defs = toUpper_def toLower_def lower_letters_def upper_letters_def

lemma toUpper_props:
  "toUpper (toUpper c) = toUpper c"
  "(toUpper c = CHR ''-'') = (c = CHR ''-'')"
  "validHeaderFieldByte c \<Longrightarrow> validHeaderFieldByte (toUpper c)"
  by (auto simp: letter_defs validHeaderFieldByte_def)

lemma toLower_props:
  "toLower (toLower c) = toLower c"
  "(toLower c = CHR ''-'') = (c = CHR ''-'')"
  "validHeaderFieldByte c \<Longrightarrow> validHeaderFieldByte (toLower c)"
  by (auto simp: letter_defs validHeaderFieldByte_def)

lemma canonical_bytes_valid:
  "list_all validHeaderFieldByte k \<Longrightarrow> list_all validHeaderFieldByte (canonical_bytes up k)"
  by (induction k arbitrary: up) (simp_all add: toUpper_props toLower_props)

lemma canonical_bytes_idem: "canonical_bytes up (canonical_bytes up k) = canonical_bytes up k"
  by (induction k arbitrary: up) (simp_all add: toUpper_props toLower_props)

text \<open>A canonical key is its own canonical form, so the keys that \<^verbatim>\<open>Add\<close> and \<^verbatim>\<open>Set\<close> store
  are canonical; a handler that does not assign to the map leaves only canonical keys.\<close>

lemma Canonical_idem:
  "CanonicalMIMEHeaderKey (CanonicalMIMEHeaderKey k) = CanonicalMIMEHeaderKey k"
  by (simp add: CanonicalMIMEHeaderKey_def canonical_bytes_valid canonical_bytes_idem)

lemma canonical_keys_iff:
  "canonical_keys hs \<longleftrightarrow> (\<forall>k \<in> set (map fst hs). CanonicalMIMEHeaderKey k = k)"
  by (auto simp: canonical_keys_def list_all_iff)

lemma canonical_keys_step:
  "canonical_keys hs \<Longrightarrow> \<not> is_HeaderAssign op \<Longrightarrow> canonical_keys (header_step op hs)"
  by (cases op)
     (auto simp: canonical_keys_iff header_Add_def header_Set_def header_Del_def
        update_keys delete_keys Canonical_idem)

lemma canonical_keys_fold:
  "canonical_keys hs \<Longrightarrow> \<not> list_ex is_HeaderAssign ops \<Longrightarrow>
     canonical_keys (fold header_step ops hs)"
  by (induction ops arbitrary: hs) (simp_all add: canonical_keys_step)

lemma canonical_keys_response:
  "\<not> list_ex is_HeaderAssign ops \<Longrightarrow> canonical_keys (response_header ops)"
proof -
  have "canonical_keys []"
    by (simp add: canonical_keys_def)
  then show "\<not> list_ex is_HeaderAssign ops \<Longrightarrow> canonical_keys (response_header ops)"
    unfolding response_header_def by (rule canonical_keys_fold)
qed

lemma distinct_header_step: "distinct (map fst hs) \<Longrightarrow> distinct (map fst (header_step op hs))"
  by (cases op) (simp_all add: header_Add_def header_Set_def header_Del_def distinct_update distinct_delete)

lemma distinct_fold_header_step:
  "distinct (map fst hs) \<Longrightarrow> distinct (map fst (fold header_step ops hs))"
  by (induction ops arbitrary: hs) (simp_all add: distinct_header_step)

lemma distinct_response_header: "distinct (map fst (response_header ops))"
  by (simp add: response_header_def distinct_fold_header_step)

lemma rw_header_deliver:
  "rw_header (deliver e b rd w) = copyHeaders e (rw_header w) (bw_header b)"
  by (simp add: deliver_def io_Copy_def rw_Write_def rw_WriteHeader_def bufferWriter_Header_def)

lemma rw_codes_deliver: "rw_codes (deliver e b rd w) = rw_codes w @ [bw_code b]"
  by (simp add: deliver_def io_Copy_def rw_Write_def rw_WriteHeader_def)

lemma delivered_headers:
  assumes "visits_every_entry e"
  shows "header_at (copyHeaders e dst (response_header ops)) K =
           header_at dst K @ values_under (range_order e (response_header ops)) K"
    and "(k, vv) \<in> set (response_header ops) \<Longrightarrow>
         \<forall>k' \<in> fst ` set (response_header ops).
            CanonicalMIMEHeaderKey k' = CanonicalMIMEHeaderKey k \<longrightarrow> k' = k \<Longrightarrow>
         header_at (copyHeaders e dst (response_header ops)) (CanonicalMIMEHeaderKey k) =
           header_at dst (CanonicalMIMEHeaderKey k) @ vv"
    and "canonical_keys (response_header ops) \<Longrightarrow>
         header_at (copyHeaders e dst (response_header ops)) K =
           header_at dst K @ header_at (response_header ops) K"
proof -
  note r = range_order_map [OF assms distinct_response_header, of ops]
  show "header_at (copyHeaders e dst (response_header ops)) K =
      header_at dst K @ values_under (range_order e (response_header ops)) K"
    by (rule copyHeaders_at)
  show "header_at (copyHeaders e dst (response_header ops)) (CanonicalMIMEHeaderKey k) =
      header_at dst (CanonicalMIMEHeaderKey k) @ vv"
    if "(k, vv) \<in> set (response_header ops)"
      and "\<forall>k' \<in> fst ` set (response_header ops).
            CanonicalMIMEHeaderKey k' = CanonicalMIMEHeaderKey k \<longrightarrow> k' = k"
    using that values_under_single [OF r(1), of k vv]
    by (simp add: copyHeaders_at r(2))
  show "header_at (copyHeaders e dst (response_header ops)) K =
      header_at dst K @ header_at (response_header ops) K"
    if "canonical_keys (response_header ops)"
    using values_under_canonical [OF canonical_keys_range [OF assms that] r(1), of K]
    by (simp add: copyHeaders_at r(3))
qed

text \<open>
  C7, as the code has it. \<^verbatim>\<open>copyHeaders\<close> adds the entries of the delivered attempt's
  header map to the real writer with \<^verbatim>\<open>Add\<close>, which brings each key into canonical form.
  When \<^verbatim>\<open>ServeHTTP\<close> delivers a captured response, it is that of the last invocation of the
  handler, from a header map that was new and empty for that invocation, and on the real
  response
  \<^item> under every key stand the values the real writer already had, followed by the values
    of the entries of that map whose key has this canonical form, in the order of the
    \<^verbatim>\<open>range\<close>, and nothing else: nothing of the attempts before;
  \<^item> an entry whose canonical form no other key of the map shares appears with its values
    under the canonical form of its key;
  \<^item> if all keys of the map are canonical, every header of the map appears verbatim; and
    they are when the handler changed the map only with \<^verbatim>\<open>Add\<close>, \<^verbatim>\<open>Set\<close>, \<^verbatim>\<open>Del\<close> and
    \<^verbatim>\<open>delete\<close>, and did not assign to it.

  When \<^verbatim>\<open>ServeHTTP\<close> delivers none, the real writer is untouched or was handed to the error
  handler, and no captured header reaches it. The \<^verbatim>\<open>range\<close> visits every entry of a map
  once.
\<close>

theorem headers_under_canonical_keys:
  assumes "visits_every_entry e"
  shows "(\<exists>m. copies (st_trace (ServeHTTP s e req (start w h))) = [m] \<and>
     (\<forall>K. header_at (rw_header (st_w (ServeHTTP s e req (start w h)))) K =
            header_at (rw_header w) K @
            values_under
              (range_order e (response_header (last_ops (st_trace (ServeHTTP s e req (start w h)))))) K) \<and>
     (\<forall>k vv.
        (k, vv) \<in> set (response_header (last_ops (st_trace (ServeHTTP s e req (start w h))))) \<and>
        (\<forall>k' \<in> fst ` set (response_header (last_ops (st_trace (ServeHTTP s e req (start w h))))).
            CanonicalMIMEHeaderKey k' = CanonicalMIMEHeaderKey k \<longrightarrow> k' = k) \<longrightarrow>
        header_at (rw_header (st_w (ServeHTTP s e req (start w h)))) (CanonicalMIMEHeaderKey k) =
          header_at (rw_header w) (CanonicalMIMEHeaderKey k) @ vv) \<and>
     (canonical_keys (response_header (last_ops (st_trace (ServeHTTP s e req (start w h))))) \<longrightarrow>
        (\<forall>K. header_at (rw_header (st_w (ServeHTTP s e req (start w h)))) K =
               header_at (rw_header w) K @
               header_at (response_header (last_ops (st_trace (ServeHTTP s e req (start w h))))) K)) \<and>
     (\<not> list_ex is_HeaderAssign (last_ops (st_trace (ServeHTTP s e req (start w h)))) \<longrightarrow>
        canonical_keys (response_header (last_ops (st_trace (ServeHTTP s e req (start w h))))))) \<or>
   (copies (st_trace (ServeHTTP s e req (start w h))) = [] \<and>
     (st_w (ServeHTTP s e req (start w h)) = w \<or>
      (\<exists>eh err. errHandler s = Some eh \<and>
         st_w (ServeHTTP s e req (start w h)) = ErrorHandler_ServeHTTP e eh w req err)))"
proof -
  let ?\<sigma> = "ServeHTTP s e req (start w h)"
  let ?hdr = "response_header (last_ops (st_trace ?\<sigma>))"
  from serve_outcome [of s e req w h]
  consider (delivered) m where "copies (st_trace ?\<sigma>) = [m]"
      "rw_header (st_w ?\<sigma>) = copyHeaders e (rw_header w) ?hdr"
    | (none) "copies (st_trace ?\<sigma>) = []"
      "st_w ?\<sigma> = w \<or> (\<exists>eh err. errHandler s = Some eh \<and> st_w ?\<sigma> = ErrorHandler_ServeHTTP e eh w req err)"
    by (auto simp: outcome_def rw_header_deliver bw_header_captured)
  then show ?thesis
  proof cases
    case delivered
    note d = delivered_headers [OF assms, where dst = "rw_header w" and ops = "last_ops (st_trace ?\<sigma>)"]
    have "\<forall>K. header_at (rw_header (st_w ?\<sigma>)) K =
        header_at (rw_header w) K @ values_under (range_order e ?hdr) K"
      unfolding delivered(2) using d(1) by blast
    moreover have "\<forall>k vv. (k, vv) \<in> set ?hdr \<and>
        (\<forall>k' \<in> fst ` set ?hdr. CanonicalMIMEHeaderKey k' = CanonicalMIMEHeaderKey k \<longrightarrow> k' = k) \<longrightarrow>
        header_at (rw_header (st_w ?\<sigma>)) (CanonicalMIMEHeaderKey k) =
          header_at (rw_header w) (CanonicalMIMEHeaderKey k) @ vv"
      unfolding delivered(2) using d(2) by blast
    moreover have "canonical_keys ?hdr \<longrightarrow>
        (\<forall>K. header_at (rw_header (st_w ?\<sigma>)) K = header_at (rw_header w) K @ header_at ?hdr K)"
      unfolding delivered(2) using d(3) by blast
    moreover have "\<not> list_ex is_HeaderAssign (last_ops (st_trace ?\<sigma>)) \<longrightarrow> canonical_keys ?hdr"
      by (simp add: canonical_keys_response)
    ultimately show ?thesis
      using delivered(1) by blast
  next
    case none
    then show ?thesis
      by blast
  qed
qed

lemma run_502_delivery:
  "copies (st_trace (ServeHTTP (streamer_retry h502 pred_attempts2_502) env0 req0 (start w0 0))) = [3]"
  "last_ops (st_trace (ServeHTTP (streamer_retry h502 pred_attempts2_502) env0 req0 (start w0 0)))
     = [HeaderSet ''X-Attempt'' ''III'', WriteHeader 502, Write ''bad gateway'']"
  by (simp_all add: eval_defs example_defs last_ops_def)

theorem headers_under_canonical_keys_witness:
  "visits_every_entry env0 \<and>
   copies (st_trace (ServeHTTP (streamer_retry h502 pred_attempts2_502) env0 req0 (start w0 0))) = [3] \<and>
   response_header (last_ops (st_trace
     (ServeHTTP (streamer_retry h502 pred_attempts2_502) env0 req0 (start w0 0))))
     = [(''X-Attempt'', [''III''])] \<and>
   \<not> list_ex is_HeaderAssign (last_ops (st_trace
     (ServeHTTP (streamer_retry h502 pred_attempts2_502) env0 req0 (start w0 0)))) \<and>
   canonical_keys [(''X-Attempt'', [''III''])] \<and>
   header_at (rw_header (st_w (ServeHTTP (streamer_retry h502 pred_attempts2_502) env0 req0 (start w0 0))))
     ''X-Attempt'' = [''III'']"
proof -
  let ?\<sigma> = "ServeHTTP (streamer_retry h502 pred_attempts2_502) env0 req0 (start w0 0)"
  have v: "visits_every_entry env0"
    by (simp add: visits_every_entry_def env0_def)
  have hdr: "response_header (last_ops (st_trace ?\<sigma>)) = [(''X-Attempt'', [''III''])]"
    by (simp add: run_502_delivery response_header_def header_Set_def canonical_examples)
  have api: "\<not> list_ex is_HeaderAssign (last_ops (st_trace ?\<sigma>))"
    by (simp add: run_502_delivery)
  have w: "header_at (rw_header w0) ''X-Attempt'' = []"
    by (simp add: w0_def header_at_def)
  have a: "header_at [(''X-Attempt'', [''III''])] ''X-Attempt'' = [''III'']"
    by (simp add: header_at_def)
  have delivered: "copies (st_trace ?\<sigma>) \<noteq> []"
    by (simp add: run_502_delivery)
  note inst = headers_under_canonical_keys [OF v, of "streamer_retry h502 pred_attempts2_502" req0 w0 0]
  from inst delivered api have c: "canonical_keys [(''X-Attempt'', [''III''])]"
    unfolding hdr by blast
  from inst delivered c
  have "\<forall>K. header_at (rw_header (st_w ?\<sigma>)) K =
      header_at (rw_header w0) K @ header_at [(''X-Attempt'', [''III''])] K"
    unfolding hdr by blast
  then have "header_at (rw_header (st_w ?\<sigma>)) ''X-Attempt'' = [''III'']"
    by (simp add: w a)
  with v hdr c api show ?thesis
    by (simp add: run_502_delivery)
qed

text \<open>
  C7 as stated fails: a handler that sets \<^verbatim>\<open>X-A\<close> with \<^verbatim>\<open>Set\<close> and assigns \<^verbatim>\<open>x-a\<close> to the
  map leaves two headers in the map of the delivered attempt; on the real response there
  is no header \<^verbatim>\<open>x-a\<close>, and \<^verbatim>\<open>X-A\<close> has the values of both.
\<close>

theorem header_renamed_counterexample:
  "New h_lower [] = Inr (streamer_of h_lower) \<and>
   copies (st_trace (ServeHTTP (streamer_of h_lower) env0 req0 (start w0 0))) = [1] \<and>
   response_header (last_ops (st_trace (ServeHTTP (streamer_of h_lower) env0 req0 (start w0 0))))
     = [(''X-A'', [''0'']), (''x-a'', [''1''])] \<and>
   rw_header (st_w (ServeHTTP (streamer_of h_lower) env0 req0 (start w0 0)))
     = [(''X-A'', [''0'', ''1''])] \<and>
   header_at (rw_header (st_w (ServeHTTP (streamer_of h_lower) env0 req0 (start w0 0)))) ''x-a'' = [] \<and>
   header_at (response_header (last_ops (st_trace
     (ServeHTTP (streamer_of h_lower) env0 req0 (start w0 0))))) ''x-a'' = [''1'']"
proof -
  have run: "copies (st_trace (ServeHTTP (streamer_of h_lower) env0 req0 (start w0 0))) = [1] \<and>
      last_ops (st_trace (ServeHTTP (streamer_of h_lower) env0 req0 (start w0 0)))
        = [HeaderSet ''X-A'' ''0'', HeaderAssign ''x-a'' [''1''], WriteHeader 200, Write ''ok''] \<and>
      rw_header (st_w (ServeHTTP (streamer_of h_lower) env0 req0 (start w0 0)))
        = [(''X-A'', [''0'', ''1''])]"
    by (simp add: eval_defs example_defs last_ops_def)
  have hdr: "response_header [HeaderSet ''X-A'' ''0'', HeaderAssign ''x-a'' [''1''], WriteHeader 200,
      Write ''ok''] = [(''X-A'', [''0'']), (''x-a'', [''1''])]"
    by (simp add: response_header_def header_Set_def canonical_examples)
  from run show ?thesis
    by (simp add: hdr header_at_def New_no_options)
qed

section \<open>The status of an attempt\<close>

lemma fold_status_step_silent:
  "\<not> list_ex is_WriteHeader ops \<Longrightarrow> fold status_step ops c = c"
proof (induction ops arbitrary: c)
  case Nil
  show ?case by simp
next
  case (Cons op ops)
  then show ?case by (cases op) simp_all
qed

lemma status_of_silent: "\<not> list_ex is_WriteHeader ops \<Longrightarrow> status_of ops = 0"
  by (simp add: status_of_def fold_status_step_silent)

lemma ctx_of_fields:
  "ctx_attempt (ctx_of s req (n, r, mb, ops)) = n"
  "ctx_responseCode (ctx_of s req (n, r, mb, ops)) = status_of ops"
  by (simp_all add: ctx_of_def retry_ctx_def bw_code_captured)

lemma body_preds_Inl:
  "attempt_body s e req t outreq n \<sigma> = Inl \<sigma>' \<Longrightarrow>
     (next_calls (st_trace \<sigma>') = next_calls (st_trace \<sigma>) \<and>
      predicate_calls (st_trace \<sigma>') = predicate_calls (st_trace \<sigma>)) \<or>
     (\<exists>ops. next_calls (st_trace \<sigma>') = next_calls (st_trace \<sigma>) @ [(n, outreq, st_body \<sigma>, ops)] \<and>
        (predicate_calls (st_trace \<sigma>') = predicate_calls (st_trace \<sigma>) \<or>
         predicate_calls (st_trace \<sigma>') =
           predicate_calls (st_trace \<sigma>) @ [ctx_of s req (n, outreq, st_body \<sigma>, ops)]))"
  by (auto simp: body_defs ctx_of_def captured_def split: body_splits)

lemma body_preds_Inr:
  "attempt_body s e req t outreq n \<sigma> = Inr (outreq', n', \<sigma>') \<Longrightarrow>
     (\<exists>ops. next_calls (st_trace \<sigma>') = next_calls (st_trace \<sigma>) @ [(n, outreq, st_body \<sigma>, ops)] \<and>
        predicate_calls (st_trace \<sigma>') =
          predicate_calls (st_trace \<sigma>) @ [ctx_of s req (n, outreq, st_body \<sigma>, ops)])"
  by (auto simp: body_defs ctx_of_def captured_def split: body_splits)

lemma loop_preds:
  assumes "predicate_calls (st_trace \<sigma>) = map (ctx_of s req) (next_calls (st_trace \<sigma>))"
  shows "\<exists>k. predicate_calls (st_trace (attempt_loop s e req t outreq n \<sigma>)) =
           take k (map (ctx_of s req) (next_calls (st_trace (attempt_loop s e req t outreq n \<sigma>))))"
  using assms
proof (induction s e req t outreq n \<sigma> rule: attempt_loop_induct)
  case (step s e req t outreq n \<sigma>)
  let ?cs = "map (ctx_of s req) (next_calls (st_trace \<sigma>))"
  show ?case
  proof (cases "attempt_body s e req t outreq n \<sigma>")
    case (Inl \<sigma>')
    from body_preds_Inl [OF Inl]
    consider (none) "next_calls (st_trace \<sigma>') = next_calls (st_trace \<sigma>)"
        "predicate_calls (st_trace \<sigma>') = predicate_calls (st_trace \<sigma>)"
      | (call) ops where
        "next_calls (st_trace \<sigma>') = next_calls (st_trace \<sigma>) @ [(n, outreq, st_body \<sigma>, ops)]"
        "predicate_calls (st_trace \<sigma>') = predicate_calls (st_trace \<sigma>)"
      | (both) ops where
        "next_calls (st_trace \<sigma>') = next_calls (st_trace \<sigma>) @ [(n, outreq, st_body \<sigma>, ops)]"
        "predicate_calls (st_trace \<sigma>') =
           predicate_calls (st_trace \<sigma>) @ [ctx_of s req (n, outreq, st_body \<sigma>, ops)]"
      by blast
    then have "\<exists>k. predicate_calls (st_trace \<sigma>') = take k (map (ctx_of s req) (next_calls (st_trace \<sigma>')))"
    proof cases
      case none
      with step.prems have "predicate_calls (st_trace \<sigma>') =
          take (length ?cs) (map (ctx_of s req) (next_calls (st_trace \<sigma>')))"
        by simp
      then show ?thesis ..
    next
      case call
      with step.prems have "predicate_calls (st_trace \<sigma>') =
          take (length ?cs) (map (ctx_of s req) (next_calls (st_trace \<sigma>')))"
        by simp
      then show ?thesis ..
    next
      case both
      with step.prems have "predicate_calls (st_trace \<sigma>') =
          take (Suc (length ?cs)) (map (ctx_of s req) (next_calls (st_trace \<sigma>')))"
        by simp
      then show ?thesis ..
    qed
    then show ?thesis
      unfolding attempt_loop_Inl [OF Inl] .
  next
    case (Inr r)
    then obtain outreq' n' \<sigma>' where body: "attempt_body s e req t outreq n \<sigma> = Inr (outreq', n', \<sigma>')"
      by (cases r) auto
    from body_preds_Inr [OF body] step.prems
    have "predicate_calls (st_trace \<sigma>') = map (ctx_of s req) (next_calls (st_trace \<sigma>'))"
      by auto
    from step.IH [OF body this] show ?thesis
      unfolding attempt_loop_Inr [OF body] .
  qed
qed

lemma ServeHTTP_body_cases [case_names early loop]:
  obtains (early)
      "next_calls (st_trace (ServeHTTP_body s e req (start w h))) = []"
      "predicate_calls (st_trace (ServeHTTP_body s e req (start w h))) = []"
      "copies (st_trace (ServeHTTP_body s e req (start w h))) = []"
    | (loop) mr t where
      "checkLimit s req = None"
      "multibuf_New e (Body req) (maxRequestBodyBytes s) (memRequestBodyBytes s) = (Some mr, None)"
      "multiReader_Size e mr = Inr t"
      "ServeHTTP_body s e req (start w h) =
         attempt_loop s e req t (copyRequest s req Multibuf t) 1
           (go_defer RBody ((emit EvNew (start w h))\<lparr>st_body := Some mr\<rparr>))"
proof (cases "checkLimit s req")
  case (Some err)
  then have "next_calls (st_trace (ServeHTTP_body s e req (start w h))) = [] \<and>
      predicate_calls (st_trace (ServeHTTP_body s e req (start w h))) = [] \<and>
      copies (st_trace (ServeHTTP_body s e req (start w h))) = []"
    by (auto simp: ServeHTTP_body_def s_errHandler_def panic_def
        split: sum.splits option.splits dest!: s_log_Inl s_log_Inr)
  then show ?thesis
    using early by blast
next
  case None
  note limit = None
  obtain body err where new:
    "multibuf_New e (Body req) (maxRequestBodyBytes s) (memRequestBodyBytes s) = (body, err)"
    by (cases "multibuf_New e (Body req) (maxRequestBodyBytes s) (memRequestBodyBytes s)")
  show ?thesis
  proof (cases "\<exists>mr. body = Some mr \<and> err = None")
    case False
    with limit new have "next_calls (st_trace (ServeHTTP_body s e req (start w h))) = [] \<and>
        predicate_calls (st_trace (ServeHTTP_body s e req (start w h))) = [] \<and>
        copies (st_trace (ServeHTTP_body s e req (start w h))) = []"
      by (auto simp: ServeHTTP_body_def s_errHandler_def panic_def split: option.splits)
    then show ?thesis
      using early by blast
  next
    case True
    then obtain mr where mr: "body = Some mr" "err = None"
      by blast
    show ?thesis
    proof (cases "multiReader_Size e mr")
      case (Inl err')
      with limit new mr have "next_calls (st_trace (ServeHTTP_body s e req (start w h))) = [] \<and>
          predicate_calls (st_trace (ServeHTTP_body s e req (start w h))) = [] \<and>
          copies (st_trace (ServeHTTP_body s e req (start w h))) = []"
        by (auto simp: ServeHTTP_body_def s_errHandler_def panic_def
            split: sum.splits option.splits dest!: s_log_Inl s_log_Inr)
      then show ?thesis
        using early by blast
    next
      case (Inr t)
      with limit new mr show ?thesis
        by (intro loop [of mr t]) (simp_all add: ServeHTTP_body_def)
    qed
  qed
qed

lemma serve_body_preds:
  "\<exists>k. predicate_calls (st_trace (ServeHTTP_body s e req (start w h))) =
       take k (map (ctx_of s req) (next_calls (st_trace (ServeHTTP_body s e req (start w h)))))"
proof (cases rule: ServeHTTP_body_cases [of s e req w h])
  case early
  then have "predicate_calls (st_trace (ServeHTTP_body s e req (start w h))) =
       take 0 (map (ctx_of s req) (next_calls (st_trace (ServeHTTP_body s e req (start w h)))))"
    by simp
  then show ?thesis ..
next
  case (loop mr t)
  show ?thesis
    unfolding loop(4) by (rule loop_preds) simp
qed

lemma serve_preds:
  "\<exists>k. predicate_calls (st_trace (ServeHTTP s e req (start w h))) =
       take k (map (ctx_of s req) (next_calls (st_trace (ServeHTTP s e req (start w h)))))"
  using serve_body_preds [of s e req w h]
  by (simp add: ServeHTTP_def trace_run_defers)

text \<open>
  For every input: every evaluation of the retry predicate gets the context of the attempt
  that has just completed (the i-th evaluation that of the i-th attempt); for an attempt
  whose handler never called \<^verbatim>\<open>WriteHeader\<close> the response code in that context is 0, the
  zero value of \<^verbatim>\<open>bufferWriter.code\<close>; and when such an attempt is delivered,
  \<^verbatim>\<open>ServeHTTP\<close> passes 0 to the real writer's \<^verbatim>\<open>WriteHeader\<close>.
\<close>

lemma unset_status_is_zero:
  "(\<forall>i < length (predicate_calls (st_trace (ServeHTTP s e req (start w h)))).
      i < length (next_calls (st_trace (ServeHTTP s e req (start w h)))) \<and>
      predicate_calls (st_trace (ServeHTTP s e req (start w h))) ! i =
        ctx_of s req (next_calls (st_trace (ServeHTTP s e req (start w h))) ! i)) \<and>
   (\<forall>(n, r, mb, ops) \<in> set (next_calls (st_trace (ServeHTTP s e req (start w h)))).
      \<not> list_ex is_WriteHeader ops \<longrightarrow>
        ctx_attempt (ctx_of s req (n, r, mb, ops)) = n \<and>
        ctx_responseCode (ctx_of s req (n, r, mb, ops)) = 0) \<and>
   (copies (st_trace (ServeHTTP s e req (start w h))) \<noteq> [] \<and>
    \<not> list_ex is_WriteHeader (last_ops (st_trace (ServeHTTP s e req (start w h)))) \<longrightarrow>
      rw_codes (st_w (ServeHTTP s e req (start w h))) = rw_codes w @ [0])"
proof (intro conjI)
  let ?tr = "st_trace (ServeHTTP s e req (start w h))"
  from serve_preds [of s e req w h] obtain k where
    k: "predicate_calls ?tr = take k (map (ctx_of s req) (next_calls ?tr))"
    by blast
  show "\<forall>i < length (predicate_calls ?tr).
      i < length (next_calls ?tr) \<and> predicate_calls ?tr ! i = ctx_of s req (next_calls ?tr ! i)"
  proof (intro allI impI)
    fix i
    assume "i < length (predicate_calls ?tr)"
    with k have i: "i < k" "i < length (next_calls ?tr)"
      by (metis length_map length_take min_less_iff_conj)+
    from i have "take k (map (ctx_of s req) (next_calls ?tr)) ! i = ctx_of s req (next_calls ?tr ! i)"
      by simp
    with k i show "i < length (next_calls ?tr) \<and>
        predicate_calls ?tr ! i = ctx_of s req (next_calls ?tr ! i)"
      by simp
  qed
  show "\<forall>(n, r, mb, ops) \<in> set (next_calls ?tr).
      \<not> list_ex is_WriteHeader ops \<longrightarrow>
        ctx_attempt (ctx_of s req (n, r, mb, ops)) = n \<and>
        ctx_responseCode (ctx_of s req (n, r, mb, ops)) = 0"
    by (auto simp: ctx_of_fields status_of_silent)
  show "copies ?tr \<noteq> [] \<and> \<not> list_ex is_WriteHeader (last_ops ?tr) \<longrightarrow>
      rw_codes (st_w (ServeHTTP s e req (start w h))) = rw_codes w @ [0]"
    using serve_outcome [of s e req w h]
    by (auto simp: outcome_def rw_codes_deliver bw_code_captured status_of_silent)
qed

text \<open>
  C8 on the code. \<^verbatim>\<open>bufferWriter\<close> stands in for the real \<^verbatim>\<open>http.ResponseWriter\<close> (the
  comment in \<^verbatim>\<open>ServeHTTP\<close>: we are mimicking \<^verbatim>\<open>http.ResponseWriter\<close>), on which a handler
  that writes a body without calling \<^verbatim>\<open>WriteHeader\<close> answers 200. The code does not give
  that: \<^verbatim>\<open>bufferWriter.code\<close> keeps its zero value.
  \<^item> With the handler of the example in the package documentation, which only writes
    \<^verbatim>\<open>hello\<close>, and the Streamer of \<^verbatim>\<open>stream.New(handler)\<close>, \<^verbatim>\<open>ServeHTTP\<close> passes 0 to the real
    writer's \<^verbatim>\<open>WriteHeader\<close>.
  \<^item> With the retry expression \<^verbatim>\<open>Attempts() <= 2 && ResponseCode() == 200\<close>, a handler that
    only writes a body is invoked once: the predicate observes the response code 0, and 0
    is passed to the real writer.
\<close>

theorem unset_status_passes_zero:
  "New h_hello [] = Inr (streamer_of h_hello) \<and>
   last_ops (st_trace (ServeHTTP (streamer_of h_hello) env0 req0 (start w0 0))) = [Write ''hello''] \<and>
   rw_codes (st_w (ServeHTTP (streamer_of h_hello) env0 req0 (start w0 0))) = [0] \<and>
   rw_body (st_w (ServeHTTP (streamer_of h_hello) env0 req0 (start w0 0))) = ''hello'' \<and>
   New h_silent [Retry parse0 ''Attempts() <= 2 && ResponseCode() == 200'']
     = Inr (streamer_retry h_silent pred_attempts2_200) \<and>
   map ctx_responseCode (predicate_calls
     (st_trace (ServeHTTP (streamer_retry h_silent pred_attempts2_200) env0 req0 (start w0 0)))) = [0] \<and>
   length (next_calls
     (st_trace (ServeHTTP (streamer_retry h_silent pred_attempts2_200) env0 req0 (start w0 0)))) = 1 \<and>
   rw_codes (st_w (ServeHTTP (streamer_retry h_silent pred_attempts2_200) env0 req0 (start w0 0))) = [0]"
proof -
  have "last_ops (st_trace (ServeHTTP (streamer_of h_hello) env0 req0 (start w0 0))) = [Write ''hello''] \<and>
   rw_codes (st_w (ServeHTTP (streamer_of h_hello) env0 req0 (start w0 0))) = [0] \<and>
   rw_body (st_w (ServeHTTP (streamer_of h_hello) env0 req0 (start w0 0))) = ''hello''"
    by (simp add: eval_defs example_defs last_ops_def)
  moreover
  have "map ctx_responseCode (predicate_calls
     (st_trace (ServeHTTP (streamer_retry h_silent pred_attempts2_200) env0 req0 (start w0 0)))) = [0] \<and>
   length (next_calls
     (st_trace (ServeHTTP (streamer_retry h_silent pred_attempts2_200) env0 req0 (start w0 0)))) = 1 \<and>
   rw_codes (st_w (ServeHTTP (streamer_retry h_silent pred_attempts2_200) env0 req0 (start w0 0))) = [0]"
    by (simp add: eval_defs example_defs)
  ultimately show ?thesis
    by (simp add: New_examples New_no_options)
qed

section \<open>The retry sequence of the example\<close>

lemma answersD: "answers nh c \<Longrightarrow> nh r a h = (ops, k, h') \<Longrightarrow> status_of ops = c"
  unfolding answers_def by (metis fst_conv)

lemma body_retry:
  assumes "fault_free e" and "log s = Some l" and "retryPredicate s = Some p" and "n \<le> 10"
    and "nxt s outreq (case st_body \<sigma> of None \<Rightarrow> [] | Some mr \<Rightarrow> multiReader_rest mr) (st_next \<sigma>)
           = (ops, k, h')"
    and "p (retry_ctx s req n (captured s ops))"
  shows "\<exists>\<sigma>'. attempt_body s e req t outreq n \<sigma> = Inr (copyRequest s req Multibuf t, n + 1, \<sigma>') \<and>
           st_w \<sigma>' = st_w \<sigma> \<and> copies (st_trace \<sigma>') = copies (st_trace \<sigma>) \<and>
           next_calls (st_trace \<sigma>') = next_calls (st_trace \<sigma>) @ [(n, outreq, st_body \<sigma>, ops)]"
  using assms
  by (simp add: body_defs fault_free_def captured_def DefaultMaxRetryAttempts_def)

lemma body_final:
  assumes "fault_free e" and "log s = Some l" and "retryPredicate s = Some p"
    and "nxt s outreq (case st_body \<sigma> of None \<Rightarrow> [] | Some mr \<Rightarrow> multiReader_rest mr) (st_next \<sigma>)
           = (ops, k, h')"
    and "10 < n \<or> \<not> p (retry_ctx s req n (captured s ops))"
  shows "\<exists>\<sigma>'. attempt_body s e req t outreq n \<sigma> = Inl \<sigma>' \<and>
           st_w \<sigma>' = deliver e (captured s ops) (wo_data (bw_buffer (captured s ops))) (st_w \<sigma>) \<and>
           copies (st_trace \<sigma>') = copies (st_trace \<sigma>) @ [n] \<and>
           next_calls (st_trace \<sigma>') = next_calls (st_trace \<sigma>) @ [(n, outreq, st_body \<sigma>, ops)]"
  using assms
  by (auto simp: body_defs fault_free_def captured_def DefaultMaxRetryAttempts_def)

lemma loop_502:
  assumes e: "fault_free e" and l: "log s = Some l"
    and p: "retryPredicate s = Some pred_attempts2_502" and a: "answers (nxt s) 502"
  shows "map fst (next_calls (st_trace (attempt_loop s e req t outreq 1 \<sigma>)))
           = map fst (next_calls (st_trace \<sigma>)) @ [1, 2, 3] \<and>
         copies (st_trace (attempt_loop s e req t outreq 1 \<sigma>)) = copies (st_trace \<sigma>) @ [3] \<and>
         rw_codes (st_w (attempt_loop s e req t outreq 1 \<sigma>)) = rw_codes (st_w \<sigma>) @ [502]"
proof -
  have retry: "pred_attempts2_502 (retry_ctx s req n (captured s ops)) \<longleftrightarrow> n \<le> 2"
    if "status_of ops = 502" for n ops
    using that by (simp add: pred_attempts2_502_def retry_ctx_def bw_code_captured)
  obtain ops1 k1 h1 where n1:
    "nxt s outreq (case st_body \<sigma> of None \<Rightarrow> [] | Some mr \<Rightarrow> multiReader_rest mr) (st_next \<sigma>)
       = (ops1, k1, h1)"
    using prod_cases3 by blast
  from body_retry [OF e l p _ n1, of 1 req t] retry [OF answersD [OF a n1]]
  obtain \<sigma>1 where b1: "attempt_body s e req t outreq 1 \<sigma> = Inr (copyRequest s req Multibuf t, 2, \<sigma>1)"
    and w1: "st_w \<sigma>1 = st_w \<sigma>" and c1: "copies (st_trace \<sigma>1) = copies (st_trace \<sigma>)"
    and t1: "next_calls (st_trace \<sigma>1) = next_calls (st_trace \<sigma>) @ [(1, outreq, st_body \<sigma>, ops1)]"
    by auto
  let ?o = "copyRequest s req Multibuf t"
  obtain ops2 k2 h2 where n2:
    "nxt s ?o (case st_body \<sigma>1 of None \<Rightarrow> [] | Some mr \<Rightarrow> multiReader_rest mr) (st_next \<sigma>1)
       = (ops2, k2, h2)"
    using prod_cases3 by blast
  from body_retry [OF e l p _ n2, of 2 req t] retry [OF answersD [OF a n2]]
  obtain \<sigma>2 where b2: "attempt_body s e req t ?o 2 \<sigma>1 = Inr (?o, 3, \<sigma>2)"
    and w2: "st_w \<sigma>2 = st_w \<sigma>1" and c2: "copies (st_trace \<sigma>2) = copies (st_trace \<sigma>1)"
    and t2: "next_calls (st_trace \<sigma>2) = next_calls (st_trace \<sigma>1) @ [(2, ?o, st_body \<sigma>1, ops2)]"
    by auto
  obtain ops3 k3 h3 where n3:
    "nxt s ?o (case st_body \<sigma>2 of None \<Rightarrow> [] | Some mr \<Rightarrow> multiReader_rest mr) (st_next \<sigma>2)
       = (ops3, k3, h3)"
    using prod_cases3 by blast
  from body_final [OF e l p n3, of 3 req t] retry [OF answersD [OF a n3]]
  obtain \<sigma>3 where b3: "attempt_body s e req t ?o 3 \<sigma>2 = Inl \<sigma>3"
    and w3: "st_w \<sigma>3 = deliver e (captured s ops3) (wo_data (bw_buffer (captured s ops3))) (st_w \<sigma>2)"
    and c3: "copies (st_trace \<sigma>3) = copies (st_trace \<sigma>2) @ [3]"
    and t3: "next_calls (st_trace \<sigma>3) = next_calls (st_trace \<sigma>2) @ [(3, ?o, st_body \<sigma>2, ops3)]"
    by auto
  have run: "attempt_loop s e req t outreq 1 \<sigma> = \<sigma>3"
    by (simp add: attempt_loop_Inr [OF b1] attempt_loop_Inr [OF b2] attempt_loop_Inl [OF b3])
  from answersD [OF a n3] have "bw_code (captured s ops3) = 502"
    by (simp add: bw_code_captured)
  then show ?thesis
    unfolding run by (simp add: t1 t2 t3 c1 c2 c3 w1 w2 w3 rw_codes_deliver)
qed

text \<open>
  C5. With the retry predicate \<^verbatim>\<open>Attempts() <= 2 && ResponseCode() == 502\<close> configured and
  a wrapped handler that leaves status 502 on every invocation, \<^verbatim>\<open>ServeHTTP\<close> invokes the
  handler exactly three times (attempts 1, 2 and 3) for one inbound request and passes
  502 to the real writer's \<^verbatim>\<open>WriteHeader\<close>. The Streamer is a constructed one (its logger
  is set), the request is within the configured request limit if there is one, and no
  operation of the buffer library fails.
\<close>

theorem retry_502_three_attempts:
  assumes "fault_free e" and "log s = Some l"
    and "retryPredicate s = Some pred_attempts2_502" and "answers (nxt s) 502"
    and "maxRequestBodyBytes s \<le> 0 \<or>
         (ContentLength req \<le> maxRequestBodyBytes s \<and> int (length (Body req)) \<le> maxRequestBodyBytes s)"
  shows "map fst (next_calls (st_trace (ServeHTTP s e req (start w h)))) = [1, 2, 3] \<and>
         copies (st_trace (ServeHTTP s e req (start w h))) = [3] \<and>
         rw_codes (st_w (ServeHTTP s e req (start w h))) = rw_codes w @ [502]"
proof -
  let ?t = "int (length (Body req))"
  let ?\<sigma>1 = "go_defer RBody ((emit EvNew (start w h))\<lparr>st_body := Some \<lparr>mr_data = Body req, mr_pos = 0\<rparr>\<rparr>)"
  from assms(1,5) have "ServeHTTP_body s e req (start w h) =
      attempt_loop s e req ?t (copyRequest s req Multibuf ?t) 1 ?\<sigma>1"
    by (auto simp: ServeHTTP_body_def checkLimit_def multibuf_New_def multiReader_Size_def
          fault_free_def)
  moreover note loop_502 [OF assms(1-4), of req ?t "copyRequest s req Multibuf ?t" ?\<sigma>1]
  ultimately show ?thesis
    by (simp add: ServeHTTP_def trace_run_defers)
qed

theorem retry_502_three_attempts_witness:
  "New h502 [Retry parse0 ''Attempts() <= 2 && ResponseCode() == 502'']
     = Inr (streamer_retry h502 pred_attempts2_502) \<and>
   map fst (next_calls (st_trace
     (ServeHTTP (streamer_retry h502 pred_attempts2_502) env0 req0 (start w0 0)))) = [1, 2, 3] \<and>
   rw_codes (st_w (ServeHTTP (streamer_retry h502 pred_attempts2_502) env0 req0 (start w0 0))) = [502]"
proof -
  let ?s = "streamer_retry h502 pred_attempts2_502"
  have e: "fault_free env0"
    by (simp add: fault_free_def env0_def)
  have l: "log ?s = Some NullLogger"
    and p: "retryPredicate ?s = Some pred_attempts2_502"
    and m: "maxRequestBodyBytes ?s \<le> 0 \<or>
         (ContentLength req0 \<le> maxRequestBodyBytes ?s \<and> int (length (Body req0)) \<le> maxRequestBodyBytes ?s)"
    by (simp_all add: streamer_retry_def New_defaults_def New_init_def DefaultMaxBodyBytes_def)
  have a: "answers (nxt ?s) 502"
    by (simp add: streamer_retry_def New_defaults_def New_init_def answers_def h502_def status_of_def)
  from retry_502_three_attempts [OF e l p a m, of w0 0] show ?thesis
    by (simp add: New_examples w0_def)
qed

section \<open>When the captures are closed\<close>

lemma closes_append [simp]: "closes (xs @ ys) = closes xs @ closes ys"
  by (simp add: closes_def)

lemma closes_Nil [simp]: "closes [] = []"
  by (simp add: closes_def)

lemma closes_Cons [simp]:
  "closes (ev # tr) = (case ev of EvClose r \<Rightarrow> [r] | _ \<Rightarrow> []) @ closes tr"
  by (cases ev) (simp_all add: closes_def)

lemma closes_map [simp]: "closes (map EvClose rs) = rs"
  by (induction rs) simp_all

lemma body_closes:
  "attempt_body s e req t outreq n \<sigma> = Inl \<sigma>' \<Longrightarrow> closes (st_trace \<sigma>') = closes (st_trace \<sigma>)"
  "attempt_body s e req t outreq n \<sigma> = Inr (outreq', n', \<sigma>'') \<Longrightarrow>
     closes (st_trace \<sigma>'') = closes (st_trace \<sigma>)"
  by (auto simp: body_defs split: body_splits)

lemma loop_closes:
  "closes (st_trace (attempt_loop s e req t outreq n \<sigma>)) = closes (st_trace \<sigma>)"
proof (induction s e req t outreq n \<sigma> rule: attempt_loop_induct)
  case (step s e req t outreq n \<sigma>)
  show ?case
  proof (cases "attempt_body s e req t outreq n \<sigma>")
    case (Inl \<sigma>')
    from body_closes(1) [OF Inl] show ?thesis
      unfolding attempt_loop_Inl [OF Inl] .
  next
    case (Inr r)
    then obtain outreq' n' \<sigma>' where body: "attempt_body s e req t outreq n \<sigma> = Inr (outreq', n', \<sigma>')"
      by (cases r) auto
    from body_closes(2) [OF body] step [OF body] show ?thesis
      unfolding attempt_loop_Inr [OF body] by simp
  qed
qed

text \<open>For every input, no \<^verbatim>\<open>Close\<close> is called before \<^verbatim>\<open>ServeHTTP\<close> returns: the deferred
  calls are the last events of the trace.\<close>

lemma closes_only_at_return:
  "closes (st_trace (ServeHTTP_body s e req (start w h))) = [] \<and>
   st_trace (ServeHTTP s e req (start w h)) =
     st_trace (ServeHTTP_body s e req (start w h)) @
     map EvClose (st_defers (ServeHTTP_body s e req (start w h)))"
proof -
  have "closes (st_trace (ServeHTTP_body s e req (start w h))) = []"
    unfolding ServeHTTP_body_def
    by (auto simp: loop_closes s_errHandler_def panic_def
        split: sum.splits option.splits prod.splits dest!: s_log_Inl s_log_Inr)
  then show ?thesis
    by (simp add: ServeHTTP_def trace_run_defers)
qed

text \<open>
  C6 on the code. In the retry sequence of three attempts no capture is closed between
  the attempts: the writers and readers of attempts 1 and 2 are still open while attempt 3
  runs, three captures are open at once, and all are closed when \<^verbatim>\<open>ServeHTTP\<close> returns,
  the latest first (the \<^verbatim>\<open>defer\<close> statements stand inside the \<^verbatim>\<open>for\<close> loop).
\<close>

theorem captures_stay_open_until_return:
  "filter is_resource
     (st_trace (ServeHTTP (streamer_retry h502 pred_attempts2_502) env0 req0 (start w0 0))) =
     [EvNewWriter 1, EvReader 1, EvNewWriter 2, EvReader 2, EvNewWriter 3, EvReader 3,
      EvClose (RReader 3), EvClose (RWriter 3), EvClose (RReader 2), EvClose (RWriter 2),
      EvClose (RReader 1), EvClose (RWriter 1), EvClose RBody] \<and>
   peak_open (st_trace (ServeHTTP (streamer_retry h502 pred_attempts2_502) env0 req0 (start w0 0))) []
     = 3"
  by (simp add: eval_defs example_defs)

end
